theory Spec2Isabelle
  imports Main "HOL-Library.Multiset"
begin

section \<open>Tab Entities and the Tab Store\<close>

text \<open>
  The tab bar of \<^verbatim>\<open>TabManager.tsx\<close> works on the array \<^verbatim>\<open>tabs\<close> that the hook
  \<^verbatim>\<open>useTabs\<close> hands out, together with the operations \<^verbatim>\<open>createNewTab\<close>,
  \<^verbatim>\<open>switchToTab\<close>, \<^verbatim>\<open>closeTab\<close>, \<^verbatim>\<open>updateTabStreamingStatus\<close>, \<^verbatim>\<open>reorderTabs\<close> and
  \<^verbatim>\<open>detachTab\<close>.  The component reads the fields \<^verbatim>\<open>id\<close>, \<^verbatim>\<open>session\<close>,
  \<^verbatim>\<open>projectPath\<close>, \<^verbatim>\<open>state\<close>, \<^verbatim>\<open>hasUnsavedChanges\<close> and \<^verbatim>\<open>isActive\<close> of a tab (and
  \<^verbatim>\<open>title\<close> and \<^verbatim>\<open>engine\<close>, which only select a label and a colour and are left out);
  the specification adds the field \<^verbatim>\<open>order\<close>.  A tab identifier is a JavaScript string.
  The Session Binding is an external collaborator: a tab holds a reference to it, which is
  modelled by the identifier of the binding.
\<close>

type_synonym tab_id = string

datatype tab_state = Idle | Streaming | Closing

record tab =
  tab_id :: tab_id
  session :: "string option"
  projectPath :: "string option"
  state :: tab_state
  hasUnsavedChanges :: bool
  isActive :: bool
  order :: nat

text \<open>
  \<^verbatim>\<open>Array.prototype.findIndex\<close>: the first index whose element satisfies the predicate,
  \<^verbatim>\<open>-1\<close> when there is none.  \<open>find_index\<close> is the same search with the failure as
  \<open>None\<close>.
\<close>

fun find_index :: "('a \<Rightarrow> bool) \<Rightarrow> 'a list \<Rightarrow> nat option" where
  "find_index P [] = None"
| "find_index P (x # xs) = (if P x then Some 0 else map_option Suc (find_index P xs))"

definition findIndex :: "('a \<Rightarrow> bool) \<Rightarrow> 'a list \<Rightarrow> int" where
  "findIndex P xs = (case find_index P xs of None \<Rightarrow> - 1 | Some i \<Rightarrow> int i)"

definition removeAt :: "nat \<Rightarrow> 'a list \<Rightarrow> 'a list" where
  "removeAt i xs = take i xs @ drop (Suc i) xs"

text \<open>
  The hook \<^verbatim>\<open>useTabs\<close> (imported from \<^verbatim>\<open>@/hooks/useTabs\<close>) is not among the source
  files, so the operations of the Tab Store follow sections 3, 4.1 and 4.2 of the
  specification; each of them is marked as modelled from the spec.
\<close>

text \<open>
  Modelled from the spec: the hook \<^verbatim>\<open>useTabs\<close> is missing; ``renumbers \<^verbatim>\<open>order\<close> for the
  remainder'', where \<^verbatim>\<open>order\<close> is the ``position in the ordered collection; unique,
  contiguous, zero-based''.
\<close>

definition renumber :: "tab list \<Rightarrow> tab list" where
  "renumber ts = map (\<lambda>i. (ts ! i)\<lparr>order := i\<rparr>) [0..<length ts]"

text \<open>
  Modelled from the spec: the hook \<^verbatim>\<open>useTabs\<close> is missing; the store has a ``single active
  pointer'', and \<^verbatim>\<open>isActive\<close> is ``derived, true for exactly one Tab Entity at a time'':
  \<open>activate k\<close> points at position \<open>k\<close>.
\<close>

definition activate :: "nat \<Rightarrow> tab list \<Rightarrow> tab list" where
  "activate k ts = map (\<lambda>i. (ts ! i)\<lparr>isActive := (i = k)\<rparr>) [0..<length ts]"

text \<open>
  Modelled from the spec: the hook \<^verbatim>\<open>useTabs\<close> is missing;
  \<^verbatim>\<open>createTab(session?, projectPath?)\<close> ``inserts a new Tab Entity
  at the end of the order, makes it active, deactivating the previous active tab''.  The
  identifier is ``generated at creation''; the generator is not specified, so the
  generated identifier is an argument.  A new tab is idle and has nothing unsaved.
\<close>

definition createTab :: "tab_id \<Rightarrow> string option \<Rightarrow> string option \<Rightarrow> tab list \<Rightarrow> tab list" where
  "createTab newId sess path ts =
     map (\<lambda>t. t\<lparr>isActive := False\<rparr>) ts @
     [\<lparr>tab_id = newId, session = sess, projectPath = path, state = Idle,
       hasUnsavedChanges = False, isActive = True, order = length ts\<rparr>]"

text \<open>
  Modelled from the spec: the hook \<^verbatim>\<open>useTabs\<close> is missing; \<^verbatim>\<open>switchToTab(id)\<close> ``sets \<^verbatim>\<open>isActive\<close> on the target, clears it
  elsewhere.  No-op, not an error, if \<^verbatim>\<open>id\<close> already active or unknown''.
\<close>

definition switchToTab :: "tab_id \<Rightarrow> tab list \<Rightarrow> tab list" where
  "switchToTab tid ts =
     (case find_index (\<lambda>t. tab_id t = tid) ts of
        None \<Rightarrow> ts
      | Some i \<Rightarrow> if isActive (ts ! i) then ts else activate i ts)"

text \<open>
  Modelled from the spec: the hook \<^verbatim>\<open>useTabs\<close> is missing; the removal shared by \<^verbatim>\<open>closeTab\<close> and \<^verbatim>\<open>detachTab\<close>:
  ``removes the entity, renumbers \<^verbatim>\<open>order\<close> for the remainder, and, if the removed entity
  was active, activates the entity that is now at the same \<^verbatim>\<open>order\<close> position, or the
  nearest lower position, or none if the store becomes empty''.
\<close>

definition removeTab :: "nat \<Rightarrow> tab list \<Rightarrow> tab list" where
  "removeTab i ts =
     (let remaining = renumber (removeAt i ts)
      in if isActive (ts ! i) \<and> remaining \<noteq> []
         then activate (if i < length remaining then i else length remaining - 1) remaining
         else remaining)"

datatype close_result = Closed | NeedsConfirmation tab_id

text \<open>
  Modelled from the spec: the hook \<^verbatim>\<open>useTabs\<close> is missing;
  \<^verbatim>\<open>closeTab(id, force=false)\<close> returns \<^verbatim>\<open>{closed: true}\<close> or
  \<^verbatim>\<open>{needsConfirmation: true, tabId}\<close>: ``if the entity's \<^verbatim>\<open>hasUnsavedChanges\<close> is true and
  \<^verbatim>\<open>force\<close> is false, returns a confirmation request without mutating state; otherwise
  removes the entity''.  An unknown identifier is the condition \<^verbatim>\<open>UnknownTabReference\<close>:
  ``logged, treated as no-op''.
\<close>

definition closeTab :: "tab_id \<Rightarrow> bool \<Rightarrow> tab list \<Rightarrow> close_result \<times> tab list" where
  "closeTab tid force ts =
     (case find_index (\<lambda>t. tab_id t = tid) ts of
        None \<Rightarrow> (Closed, ts)
      | Some i \<Rightarrow>
          if hasUnsavedChanges (ts ! i) \<and> \<not> force then (NeedsConfirmation tid, ts)
          else (Closed, removeTab i ts))"

text \<open>
  Modelled from the spec: the hook \<^verbatim>\<open>useTabs\<close> is missing;
  \<^verbatim>\<open>updateTabStreamingStatus(id, isStreaming, sessionId?)\<close> ``sets
  \<^verbatim>\<open>state\<close> to \<^verbatim>\<open>streaming\<close>/\<^verbatim>\<open>idle\<close>, optionally rebinds \<^verbatim>\<open>session\<close> if the backend
  resolved a new identifier'' and ``flips \<^verbatim>\<open>hasUnsavedChanges\<close> according to policy
  (streaming or unsynced session implies unsaved)''.  When a session counts as unsynced is
  not specified: the predicate \<open>unsynced\<close> is an argument.
\<close>

definition updateTabStreamingStatus ::
  "(tab \<Rightarrow> bool) \<Rightarrow> tab_id \<Rightarrow> bool \<Rightarrow> string option \<Rightarrow> tab list \<Rightarrow> tab list" where
  "updateTabStreamingStatus unsynced tid isStreaming sessionId ts =
     map (\<lambda>t. if tab_id t = tid
               then t\<lparr>state := (if isStreaming then Streaming else Idle),
                      session := (case sessionId of None \<Rightarrow> session t | Some sid \<Rightarrow> Some sid),
                      hasUnsavedChanges := (isStreaming \<or> unsynced t)\<rparr>
               else t) ts"

text \<open>
  Modelled from the spec: the hook \<^verbatim>\<open>useTabs\<close> is missing; the Reorder Engine is a
  ``pure operation: given an ordered sequence and \<^verbatim>\<open>(fromIndex, toIndex)\<close>, removes the
  element at \<^verbatim>\<open>fromIndex\<close> and reinserts it at \<^verbatim>\<open>toIndex\<close>, shifting intermediate elements
  by one position''.
\<close>

definition reorder :: "nat \<Rightarrow> nat \<Rightarrow> 'a list \<Rightarrow> 'a list" where
  "reorder fromIndex toIndex xs =
     (let moved = xs ! fromIndex;
          remaining = removeAt fromIndex xs
      in take toIndex remaining @ [moved] @ drop toIndex remaining)"

text \<open>
  Modelled from the spec: the hook \<^verbatim>\<open>useTabs\<close> is missing;
  \<^verbatim>\<open>reorderTabs(fromIndex, toIndex)\<close> ``delegates to the Reorder Engine; a no-op if
  indices are equal or out of bounds''.  The indices are JavaScript numbers, so they may
  be negative; the tabs are renumbered to their new positions.
\<close>

definition reorderTabs :: "int \<Rightarrow> int \<Rightarrow> tab list \<Rightarrow> tab list" where
  "reorderTabs fromIndex toIndex ts =
     (if fromIndex = toIndex then ts
      else if fromIndex < 0 \<or> int (length ts) \<le> fromIndex then ts
      else if toIndex < 0 \<or> int (length ts) \<le> toIndex then ts
      else renumber (reorder (nat fromIndex) (nat toIndex) ts))"









text \<open>The operations of the first invariant claim, and their execution in sequence.\<close>

datatype store_op =
    CreateTab tab_id "string option" "string option"
  | CloseTab tab_id bool
  | ReorderTabs int int

fun apply_op :: "store_op \<Rightarrow> tab list \<Rightarrow> tab list" where
  "apply_op (CreateTab newId sess path) ts = createTab newId sess path ts"
| "apply_op (CloseTab tid force) ts = snd (closeTab tid force ts)"
| "apply_op (ReorderTabs fromIndex toIndex) ts = reorderTabs fromIndex toIndex ts"

fun apply_ops :: "store_op list \<Rightarrow> tab list \<Rightarrow> tab list" where
  "apply_ops [] ts = ts"
| "apply_ops (x # xs) ts = apply_ops xs (apply_op x ts)"

text \<open>
  The two invariants of section 3: the \<^verbatim>\<open>order\<close> values are a permutation of \<open>[0, n)\<close>,
  and the number of active tabs is one, or zero for the empty collection.
\<close>

definition order_contiguous :: "tab list \<Rightarrow> bool" where
  "order_contiguous ts = (mset (map order ts) = mset [0..<length ts])"

definition active_count :: "tab list \<Rightarrow> nat" where
  "active_count ts = length (filter isActive ts)"

definition store_inv :: "tab list \<Rightarrow> bool" where
  "store_inv ts = (order_contiguous ts \<and> active_count ts = (if ts = [] then 0 else 1))"

text \<open>A tab with its \<^verbatim>\<open>order\<close> field cleared: what a reordering leaves alone.\<close>

definition unordered :: "tab \<Rightarrow> tab" where
  "unordered t = t\<lparr>order := 0\<rparr>"

section \<open>The tab bar of \<^verbatim>\<open>TabManager.tsx\<close>\<close>

text \<open>
  The component state: \<^verbatim>\<open>draggedTab\<close>, \<^verbatim>\<open>dragOverIndex\<close> and \<^verbatim>\<open>tabToClose\<close>, each
  \<^verbatim>\<open>null\<close> at first.  \<open>truthy\<close> is the JavaScript test \<^verbatim>\<open>if (v)\<close> on a
  \<^verbatim>\<open>string | null\<close>: \<^verbatim>\<open>null\<close> and the empty string are falsy, and \<^verbatim>\<open>v || null\<close> is
  \<open>or_null v\<close>.
\<close>

record ui_state =
  draggedTab :: "string option"
  dragOverIndex :: "int option"
  tabToClose :: "string option"

definition truthy :: "string option \<Rightarrow> bool" where
  "truthy v = (case v of None \<Rightarrow> False | Some s \<Rightarrow> s \<noteq> [])"


definition handleTabDragStart :: "tab_id \<Rightarrow> ui_state \<Rightarrow> ui_state" where
  "handleTabDragStart tabId ui = ui\<lparr>draggedTab := Some tabId\<rparr>"

definition handleTabDragEnd :: "ui_state \<Rightarrow> ui_state" where
  "handleTabDragEnd ui = ui\<lparr>draggedTab := None, dragOverIndex := None\<rparr>"

definition handleTabDragOver :: "int \<Rightarrow> ui_state \<Rightarrow> ui_state" where
  "handleTabDragOver index ui = ui\<lparr>dragOverIndex := Some index\<rparr>"

text \<open>
  \<^verbatim>\<open>handleTabDrop\<close>: returns at once when nothing is dragged; clears the drag state and
  returns when the dragged tab is not found or lies at the target already; otherwise calls
  \<^verbatim>\<open>reorderTabs(fromIndex, targetIndex)\<close> and clears the drag state.  The second component
  is the call of \<^verbatim>\<open>reorderTabs\<close> the handler makes, if any; \<open>dropTab\<close> runs it on the
  store.
\<close>

definition handleTabDrop :: "int \<Rightarrow> ui_state \<Rightarrow> tab list \<Rightarrow> ui_state \<times> (int \<times> int) option" where
  "handleTabDrop targetIndex ui ts =
     (if \<not> truthy (draggedTab ui) then (ui, None)
      else
        let fromIndex = findIndex (\<lambda>t. Some (tab_id t) = draggedTab ui) ts
        in if fromIndex = - 1 \<or> fromIndex = targetIndex
           then (ui\<lparr>draggedTab := None, dragOverIndex := None\<rparr>, None)
           else (ui\<lparr>draggedTab := None, dragOverIndex := None\<rparr>, Some (fromIndex, targetIndex)))"

definition dropTab :: "int \<Rightarrow> ui_state \<times> tab list \<Rightarrow> ui_state \<times> tab list" where
  "dropTab targetIndex p =
     (case handleTabDrop targetIndex (fst p) (snd p) of
        (ui', None) \<Rightarrow> (ui', snd p)
      | (ui', Some (fromIndex, toIndex)) \<Rightarrow> (ui', reorderTabs fromIndex toIndex (snd p)))"



definition dismissDialog :: "ui_state \<Rightarrow> ui_state" where
  "dismissDialog ui = ui\<lparr>tabToClose := None\<rparr>"

definition dialog_open :: "ui_state \<Rightarrow> bool" where
  "dialog_open ui = (tabToClose ui \<noteq> None)"

text \<open>
  The menu entries ``close all tabs'' and ``close other tabs'':
  \<^verbatim>\<open>tabs.forEach(tab => closeTab(tab.id, true))\<close> and the same after
  \<^verbatim>\<open>tabs.filter(tab => !tab.isActive)\<close>.  The calls are listed first, as the handler
  takes them from the array it was rendered with, and then run in order on the store (the
  mutations of the store are serialised).  Neither handler touches \<^verbatim>\<open>tabToClose\<close>.
\<close>

definition closeAll_calls :: "tab list \<Rightarrow> (tab_id \<times> bool) list" where
  "closeAll_calls ts = map (\<lambda>tab. (tab_id tab, True)) ts"

definition closeOthers_calls :: "tab list \<Rightarrow> (tab_id \<times> bool) list" where
  "closeOthers_calls ts = map (\<lambda>tab. (tab_id tab, True)) (filter (\<lambda>tab. \<not> isActive tab) ts)"

fun run_closeTab :: "(tab_id \<times> bool) list \<Rightarrow> tab list \<Rightarrow> close_result list \<times> tab list" where
  "run_closeTab [] ts = ([], ts)"
| "run_closeTab (c # cs) ts =
     (let r = closeTab (fst c) (snd c) ts;
          rest = run_closeTab cs (snd r)
      in (fst r # fst rest, snd rest))"

definition closeAllTabs :: "ui_state \<times> tab list \<Rightarrow> ui_state \<times> tab list" where
  "closeAllTabs p = (fst p, snd (run_closeTab (closeAll_calls (snd p)) (snd p)))"

definition closeOtherTabs :: "ui_state \<times> tab list \<Rightarrow> ui_state \<times> tab list" where
  "closeOtherTabs p = (fst p, snd (run_closeTab (closeOthers_calls (snd p)) (snd p)))"



text \<open>
  The content area: \<^verbatim>\<open>tabs.map\<close> renders, for every tab, a \<^verbatim>\<open>div\<close> with the key
  \<^verbatim>\<open>tab.id\<close>, the class \<^verbatim>\<open>hidden\<close> unless the tab is active, and one
  \<^verbatim>\<open>TabSessionWrapper\<close> with the tab's identifier, session, project path and activity,
  whose \<^verbatim>\<open>onStreamingChange\<close> calls \<^verbatim>\<open>updateTabStreamingStatus(tab.id, ...)\<close>.
\<close>

record tab_view =
  view_key :: tab_id
  view_hidden :: bool
  wrapper_tabId :: tab_id
  wrapper_session :: "string option"
  wrapper_initialProjectPath :: "string option"
  wrapper_isActive :: bool
  wrapper_onStreamingChange :: "bool \<Rightarrow> string option \<Rightarrow> tab list \<Rightarrow> tab list"

definition render_content :: "(tab \<Rightarrow> bool) \<Rightarrow> tab list \<Rightarrow> tab_view list" where
  "render_content unsynced ts =
     map (\<lambda>tab. \<lparr>view_key = tab_id tab,
                  view_hidden = (\<not> isActive tab),
                  wrapper_tabId = tab_id tab,
                  wrapper_session = session tab,
                  wrapper_initialProjectPath = projectPath tab,
                  wrapper_isActive = isActive tab,
                  wrapper_onStreamingChange =
                    (\<lambda>isStreaming sessionId.
                       updateTabStreamingStatus unsynced (tab_id tab) isStreaming sessionId)\<rparr>) ts"

text \<open>
  React keeps the instance of a keyed child from one render to the next exactly when the
  next render has a child with the same key; the keys of the children that a render drops
  are those of the instances it unmounts.
\<close>

definition unmounted :: "tab_view list \<Rightarrow> tab_view list \<Rightarrow> tab_id list" where
  "unmounted before after =
     filter (\<lambda>k. k \<notin> set (map view_key after)) (map view_key before)"

section \<open>The status indicator of \<^verbatim>\<open>ClaudeStatusIndicator.tsx\<close>\<close>

text \<open>
  \<^verbatim>\<open>StatusInfo\<close> with its optional fields; \<^verbatim>\<open>lastChecked\<close> is a time in milliseconds.
  The messages of the \<^verbatim>\<open>error\<close> field are the three ``CLI not found'' texts, the
  ``status check failed'' text of the \<^verbatim>\<open>catch\<close> block, or a text the backend supplied.
\<close>

datatype cli_type = Claude | Codex | Gemini

datatype connection_status = Checking | Connected | Disconnected | Error

datatype message = ClaudeNotFound | CodexNotFound | GeminiNotFound | CheckFailed | Backend string

record status_info =
  status :: connection_status
  version :: "string option"
  error :: "message option"
  lastChecked :: "int option"

text \<open>
  The cache is the entry \<^verbatim>\<open>claude_status_cache\<close> of \<^verbatim>\<open>localStorage\<close>: absent; a string
  that yields nothing to read (the empty string, which \<^verbatim>\<open>if (cached)\<close> skips, a string
  that \<^verbatim>\<open>JSON.parse\<close> rejects, or one that parses to \<^verbatim>\<open>null\<close>, which cannot be
  destructured); or a parsed value whose fields \<^verbatim>\<open>statusInfo\<close> and \<^verbatim>\<open>timestamp\<close> may be
  missing.
\<close>

datatype stored = Unparseable | Parsed "status_info option" "int option"

definition CACHE_DURATION :: int where
  "CACHE_DURATION = 24 * 60 * 60 * 1000"

text \<open>
  \<^verbatim>\<open>loadCachedStatus\<close>, with \<^verbatim>\<open>Date.now()\<close> as the argument \<open>now\<close>.  A missing
  \<^verbatim>\<open>timestamp\<close> makes the age \<^verbatim>\<open>NaN\<close>, which is not below the duration; a missing
  \<^verbatim>\<open>statusInfo\<close> raises at \<^verbatim>\<open>statusInfo.lastChecked\<close>, which the \<^verbatim>\<open>catch\<close> turns into
  \<^verbatim>\<open>null\<close>.  The stored \<^verbatim>\<open>lastChecked\<close> is turned back into a \<^verbatim>\<open>Date\<close> of the same
  instant.
\<close>

definition loadCachedStatus :: "int \<Rightarrow> stored option \<Rightarrow> status_info option" where
  "loadCachedStatus now cached =
     (case cached of
        None \<Rightarrow> None
      | Some Unparseable \<Rightarrow> None
      | Some (Parsed statusInfo timestamp) \<Rightarrow>
          (case timestamp of
             None \<Rightarrow> None
           | Some t \<Rightarrow>
               let age = now - t
               in if age < CACHE_DURATION
                  then (case statusInfo of None \<Rightarrow> None | Some info \<Rightarrow> Some info)
                  else None))"

text \<open>
  \<^verbatim>\<open>saveCachedStatus\<close>: \<^verbatim>\<open>localStorage.setItem\<close> may raise (a full or disabled storage),
  which is caught and logged; \<open>writable\<close> tells whether the write goes through.
\<close>

definition saveCachedStatus :: "bool \<Rightarrow> int \<Rightarrow> status_info \<Rightarrow> stored option \<Rightarrow> stored option" where
  "saveCachedStatus writable now statusInfo cached =
     (if writable then Some (Parsed (Some statusInfo) (Some now)) else cached)"

text \<open>
  The answers of the backend (\<^verbatim>\<open>checkClaudeVersion\<close>, \<^verbatim>\<open>checkCodexAvailability\<close>,
  \<^verbatim>\<open>checkGeminiInstalled\<close>) and the status \<^verbatim>\<open>checkClaudeStatus\<close> builds from them.
\<close>

record api_result =
  installed :: bool
  api_version :: "string option"
  api_error :: "string option"

definition not_found :: "cli_type \<Rightarrow> message" where
  "not_found c = (case c of Claude \<Rightarrow> ClaudeNotFound | Codex \<Rightarrow> CodexNotFound | Gemini \<Rightarrow> GeminiNotFound)"

definition new_status :: "cli_type \<Rightarrow> api_result \<Rightarrow> int \<Rightarrow> status_info" where
  "new_status c r now =
     \<lparr>status = (if installed r then Connected else Disconnected),
      version = api_version r,
      error = (if installed r then None
               else if c = Claude then Some ClaudeNotFound
               else (case api_error r of
                       None \<Rightarrow> Some (not_found c)
                     | Some e \<Rightarrow> if e = [] then Some (not_found c) else Some (Backend e))),
      lastChecked = Some now\<rparr>"

definition error_status :: "int \<Rightarrow> status_info" where
  "error_status now =
     \<lparr>status = Error, version = None, error = Some CheckFailed, lastChecked = Some now\<rparr>"

text \<open>
  The module variable \<^verbatim>\<open>isChecking\<close> and the storage are shared by every mounted
  indicator; \<^verbatim>\<open>statusInfo\<close> and \<^verbatim>\<open>cliPath\<close> belong to one indicator.  A call of the
  asynchronous \<^verbatim>\<open>checkClaudeStatus\<close> runs up to its first \<^verbatim>\<open>await\<close> at once and is then
  suspended, first on the check of the backend and then on the lookup of the path; the
  suspended calls are the checks in flight.
\<close>

record component =
  statusInfo :: status_info
  cliPath :: "string option"

datatype phase = AwaitingCheck | AwaitingPath status_info

record invocation =
  caller :: nat
  selectedCli :: cli_type
  phase :: phase

record sys =
  isChecking :: bool
  storage :: "stored option"
  components :: "nat \<Rightarrow> component"
  inflight :: "invocation list"

text \<open>
  \<^verbatim>\<open>checkClaudeStatus\<close> up to its first \<^verbatim>\<open>await\<close>: the guard, the flag, the status
  \<^verbatim>\<open>checking\<close>, the cleared path and the request to the backend.
\<close>

definition checkClaudeStatus :: "nat \<Rightarrow> cli_type \<Rightarrow> sys \<Rightarrow> sys" where
  "checkClaudeStatus c cl s =
     (if isChecking s then s
      else s\<lparr>isChecking := True,
             components := (components s)
               (c := \<lparr>statusInfo = \<lparr>status = Checking, version = None, error = None, lastChecked = None\<rparr>,
                      cliPath = None\<rparr>),
             inflight := inflight s @ [\<lparr>caller = c, selectedCli = cl, phase = AwaitingCheck\<rparr>]\<rparr>)"

text \<open>
  The check of the backend answers: the new status is built, and the call waits for the
  path.
\<close>

definition check_resolved :: "nat \<Rightarrow> api_result \<Rightarrow> int \<Rightarrow> sys \<Rightarrow> sys" where
  "check_resolved k r now s =
     (if k < length (inflight s) \<and> phase (inflight s ! k) = AwaitingCheck
      then s\<lparr>inflight := (inflight s)
               [k := (inflight s ! k)
                  \<lparr>phase := AwaitingPath (new_status (selectedCli (inflight s ! k)) r now)\<rparr>]\<rparr>
      else s)"

text \<open>
  The check of the backend fails: the \<^verbatim>\<open>catch\<close> block sets and caches (for Claude) the
  error status, and \<^verbatim>\<open>finally\<close> clears the flag.
\<close>

definition check_rejected :: "nat \<Rightarrow> int \<Rightarrow> bool \<Rightarrow> sys \<Rightarrow> sys" where
  "check_rejected k now writable s =
     (if k < length (inflight s) \<and> phase (inflight s ! k) = AwaitingCheck
      then s\<lparr>components := (components s)
               (caller (inflight s ! k) := \<lparr>statusInfo = error_status now, cliPath = None\<rparr>),
             storage := (if selectedCli (inflight s ! k) = Claude
                         then saveCachedStatus writable now (error_status now) (storage s)
                         else storage s),
             isChecking := False,
             inflight := removeAt k (inflight s)\<rparr>
      else s)"

text \<open>
  The lookup of the path settles (a failure gives \<^verbatim>\<open>null\<close>): the status and the path are
  set, the status cached (for Claude), and \<^verbatim>\<open>finally\<close> clears the flag.
\<close>

definition path_settled :: "nat \<Rightarrow> string option \<Rightarrow> int \<Rightarrow> bool \<Rightarrow> sys \<Rightarrow> sys" where
  "path_settled k detectedPath now writable s =
     (if k < length (inflight s)
      then (case phase (inflight s ! k) of
              AwaitingCheck \<Rightarrow> s
            | AwaitingPath newStatus \<Rightarrow>
                s\<lparr>components := (components s)
                     (caller (inflight s ! k) := \<lparr>statusInfo = newStatus, cliPath = detectedPath\<rparr>),
                  storage := (if selectedCli (inflight s ! k) = Claude
                              then saveCachedStatus writable now newStatus (storage s)
                              else storage s),
                  isChecking := False,
                  inflight := removeAt k (inflight s)\<rparr>)
      else s)"

text \<open>
  \<^verbatim>\<open>handleRefresh\<close> removes the cache entry and calls \<^verbatim>\<open>checkClaudeStatus\<close>.  The effects
  of mounting: the first uses a cached status or, with none and no check running, starts a
  check; the effect on \<^verbatim>\<open>selectedCli\<close> then calls \<^verbatim>\<open>checkClaudeStatus\<close> as well.
\<close>

definition removeItem :: "sys \<Rightarrow> sys" where
  "removeItem s = s\<lparr>storage := None\<rparr>"

definition handleRefresh :: "nat \<Rightarrow> cli_type \<Rightarrow> sys \<Rightarrow> sys" where
  "handleRefresh c cl s = checkClaudeStatus c cl (removeItem s)"

definition mount :: "nat \<Rightarrow> cli_type \<Rightarrow> int \<Rightarrow> sys \<Rightarrow> sys" where
  "mount c cl now s =
     checkClaudeStatus c cl
       (case loadCachedStatus now (storage s) of
          Some cachedStatus \<Rightarrow>
            s\<lparr>components := (components s) (c := (components s c)\<lparr>statusInfo := cachedStatus\<rparr>)\<rparr>
        | None \<Rightarrow> if \<not> isChecking s then checkClaudeStatus c cl s else s)"

text \<open>The events of the indicators, and a run of them.\<close>

datatype event =
    Invoke nat cli_type
  | Refresh nat cli_type
  | Mount nat cli_type int
  | CheckResolved nat api_result int
  | CheckRejected nat int bool
  | PathSettled nat "string option" int bool

fun step :: "event \<Rightarrow> sys \<Rightarrow> sys" where
  "step (Invoke c cl) s = checkClaudeStatus c cl s"
| "step (Refresh c cl) s = handleRefresh c cl s"
| "step (Mount c cl now) s = mount c cl now s"
| "step (CheckResolved k r now) s = check_resolved k r now s"
| "step (CheckRejected k now writable) s = check_rejected k now writable s"
| "step (PathSettled k detectedPath now writable) s = path_settled k detectedPath now writable s"

fun run :: "event list \<Rightarrow> sys \<Rightarrow> sys" where
  "run [] s = s"
| "run (e # es) s = run es (step e s)"

text \<open>
  The guard: the flag is set exactly while a check is in flight, and there is never more
  than one.
\<close>

definition guard_inv :: "sys \<Rightarrow> bool" where
  "guard_inv s = (length (inflight s) \<le> 1 \<and> (isChecking s \<longleftrightarrow> inflight s \<noteq> []))"

section \<open>Example stores\<close>

definition example_tab :: "tab_id \<Rightarrow> bool \<Rightarrow> bool \<Rightarrow> nat \<Rightarrow> tab" where
  "example_tab tid unsaved active k =
     \<lparr>tab_id = tid, session = None, projectPath = Some ''/work'', state = Idle,
      hasUnsavedChanges = unsaved, isActive = active, order = k\<rparr>"

definition abc_store :: "tab list" where
  "abc_store =
     [example_tab ''A'' False True 0, example_tab ''B'' True False 1, example_tab ''C'' False False 2]"

text \<open>The component state at first: nothing dragged, no dialog.\<close>

definition ui0 :: ui_state where
  "ui0 = \<lparr>draggedTab = None, dragOverIndex = None, tabToClose = None\<rparr>"

text \<open>The example store while the background tab B streams on a session of its own.\<close>

definition streaming_abc :: "tab list" where
  "streaming_abc = updateTabStreamingStatus (\<lambda>t. False) ''B'' True (Some ''s1'') abc_store"


text \<open>
  The indicators at first: no check running, nothing cached.  Then a run: indicator 0 is
  mounted, indicator 1 asks for a check, indicator 0 is refreshed, the check of indicator 0
  finds Claude and its path, and a later check of indicator 1 fails.
\<close>

definition idle_sys :: sys where
  "idle_sys =
     \<lparr>isChecking = False, storage = None,
      components = (\<lambda>c. \<lparr>statusInfo = \<lparr>status = Checking, version = None, error = None,
                                         lastChecked = None\<rparr>,
                           cliPath = None\<rparr>),
      inflight = []\<rparr>"

definition claude_found :: api_result where
  "claude_found = \<lparr>installed = True, api_version = Some ''2.0.1'', api_error = None\<rparr>"

definition example_events :: "event list" where
  "example_events =
     [Mount 0 Claude 1000, Invoke 1 Codex, Refresh 0 Claude,
      CheckResolved 0 claude_found 2000, Invoke 1 Gemini,
      PathSettled 0 (Some ''/usr/bin/claude'') 3000 True,
      Invoke 1 Codex, CheckRejected 0 4000 True]"

definition cached_sys :: sys where
  "cached_sys = run (take 6 example_events) idle_sys"

section \<open>Lists: searching, removing, reordering\<close>

lemma mset_removeAt: "i < length xs \<Longrightarrow> mset (removeAt i xs) + {#xs ! i#} = mset xs"
proof -
  assume "i < length xs"
  then have "xs = take i xs @ xs ! i # drop (Suc i) xs" by (rule id_take_nth_drop)
  then have "mset xs = mset (take i xs @ xs ! i # drop (Suc i) xs)" by simp
  then show ?thesis by (simp add: removeAt_def)
qed

lemma length_removeAt: "i < length xs \<Longrightarrow> length (removeAt i xs) = length xs - 1"
  by (simp add: removeAt_def)

lemma nth_removeAt: "i < length xs \<Longrightarrow> k < length xs - 1 \<Longrightarrow>
   removeAt i xs ! k = (if k < i then xs ! k else xs ! Suc k)"
  by (auto simp: removeAt_def nth_append min_def)

lemma length_reorder: "i < length xs \<Longrightarrow> j < length xs \<Longrightarrow> length (reorder i j xs) = length xs"
  by (auto simp: reorder_def Let_def length_removeAt)

lemma mset_reorder: "i < length xs \<Longrightarrow> mset (reorder i j xs) = mset xs"
proof -
  assume i: "i < length xs"
  define r where "r = removeAt i xs"
  have "mset (take j r) + mset (drop j r) = mset r"
    by (metis append_take_drop_id mset_append)
  then have "mset (reorder i j xs) = mset r + {#xs ! i#}"
    by (simp add: reorder_def Let_def r_def)
  then show ?thesis using mset_removeAt[OF i] by (simp add: r_def)
qed

lemma reorder_same: "i < length xs \<Longrightarrow> reorder i i xs = xs"
  by (simp add: reorder_def removeAt_def Let_def id_take_nth_drop[symmetric])

lemma nth_reorder_target: "i < length xs \<Longrightarrow> j < length xs \<Longrightarrow> reorder i j xs ! j = xs ! i"
  by (auto simp: reorder_def Let_def nth_append length_removeAt)

lemma removeAt_reorder: "i < length xs \<Longrightarrow> j < length xs \<Longrightarrow>
   removeAt j (reorder i j xs) = removeAt i xs"
proof -
  assume i: "i < length xs" and j: "j < length xs"
  define r where "r = removeAt i xs"
  have lr: "j \<le> length r" using i j by (simp add: r_def length_removeAt)
  have "reorder i j xs = take j r @ xs ! i # drop j r" by (simp add: reorder_def Let_def r_def)
  then have "removeAt j (reorder i j xs) = take j r @ drop j r"
    using lr by (simp add: removeAt_def)
  then show ?thesis by (simp add: r_def)
qed

lemma nth_reorder:
  assumes i: "i < length xs" and j: "j < length xs" and k: "k < length xs"
  shows "reorder i j xs ! k =
     (if k = j then xs ! i
      else if i \<le> k \<and> k < j then xs ! Suc k
      else if j < k \<and> k \<le> i then xs ! (k - 1)
      else xs ! k)"
proof -
  define r where "r = removeAt i xs"
  have lr: "length r = length xs - 1" using i by (simp add: r_def length_removeAt)
  have eq: "reorder i j xs = take j r @ xs ! i # drop j r"
    by (simp add: reorder_def Let_def r_def)
  consider (lt) "k < j" | (eq) "k = j" | (gt) "j < k" by arith
  then show ?thesis
  proof cases
    case lt
    then have "reorder i j xs ! k = r ! k" using j lr by (simp add: eq nth_append)
    also have "\<dots> = (if k < i then xs ! k else xs ! Suc k)"
      unfolding r_def using i j lt by (intro nth_removeAt) auto
    finally show ?thesis using lt by auto
  next
    case eq
    then show ?thesis using nth_reorder_target[OF i j] by simp
  next
    case gt
    then obtain d where d: "k = Suc (j + d)" by (metis less_iff_Suc_add)
    have "reorder i j xs ! k = r ! (j + d)" using j lr k d by (simp add: eq nth_append)
    also have "\<dots> = (if j + d < i then xs ! (j + d) else xs ! Suc (j + d))"
      unfolding r_def using i k d by (intro nth_removeAt) auto
    finally show ?thesis using gt d by auto
  qed
qed

lemma find_index_Some: "find_index P xs = Some i \<Longrightarrow> i < length xs \<and> P (xs ! i)"
  by (induction xs arbitrary: i) (auto split: if_splits)

lemma find_index_None: "find_index P xs = None \<longleftrightarrow> (\<forall>x\<in>set xs. \<not> P x)"
  by (induction xs) auto

lemma find_index_first: "find_index P xs = Some i \<Longrightarrow> k < i \<Longrightarrow> \<not> P (xs ! k)"
  by (induction xs arbitrary: i k) (auto split: if_splits simp: nth_Cons split: nat.splits)

lemma find_index_distinct:
  "distinct (map f xs) \<Longrightarrow> i < length xs \<Longrightarrow> find_index (\<lambda>x. f x = f (xs ! i)) xs = Some i"
proof (induction xs arbitrary: i)
  case Nil
  then show ?case by simp
next
  case (Cons x xs)
  show ?case
  proof (cases i)
    case 0
    then show ?thesis by simp
  next
    case (Suc k)
    with Cons.prems have k: "k < length xs" and nin: "f x \<notin> f ` set xs" and d: "distinct (map f xs)"
      by auto
    from k nin have "f x \<noteq> f (xs ! k)" by (metis imageI nth_mem)
    with Cons.IH[OF d k] Suc show ?thesis by simp
  qed
qed

lemma length_renumber: "length (renumber ts) = length ts"
  by (simp add: renumber_def)

lemma nth_renumber: "i < length ts \<Longrightarrow> renumber ts ! i = (ts ! i)\<lparr>order := i\<rparr>"
  by (simp add: renumber_def)

lemma map_order_renumber: "map order (renumber ts) = [0..<length ts]"
  by (rule nth_equalityI) (simp_all add: renumber_def)

lemma map_renumber:
  "(\<And>t i. f (t\<lparr>order := i\<rparr>) = f t) \<Longrightarrow> map f (renumber ts) = map f ts"
  by (rule nth_equalityI) (simp_all add: renumber_def)

lemma renumber_Nil_iff: "renumber ts = [] \<longleftrightarrow> ts = []"
  by (simp add: renumber_def)

lemma length_activate: "length (activate k ts) = length ts"
  by (simp add: activate_def)

lemma nth_activate: "i < length ts \<Longrightarrow> activate k ts ! i = (ts ! i)\<lparr>isActive := (i = k)\<rparr>"
  by (simp add: activate_def)

lemma map_activate:
  "(\<And>t b. f (t\<lparr>isActive := b\<rparr>) = f t) \<Longrightarrow> map f (activate k ts) = map f ts"
  by (rule nth_equalityI) (simp_all add: activate_def)

lemma active_count_map: "active_count ts = length (filter (\<lambda>b. b) (map isActive ts))"
  by (simp add: active_count_def filter_map comp_def)

lemma active_count_renumber: "active_count (renumber ts) = active_count ts"
  by (simp add: active_count_map map_renumber)

lemma filter_eq_upt: "filter (\<lambda>i. i = k) [0..<n] = (if k < n then [k] else [])"
  by (induction n) auto

lemma active_count_activate: "active_count (activate k ts) = (if k < length ts then 1 else 0)"
proof -
  have "map isActive (activate k ts) = map (\<lambda>i. i = k) [0..<length ts]"
    by (simp add: activate_def)
  then have "active_count (activate k ts) = length (filter (\<lambda>i. i = k) [0..<length ts])"
    by (simp add: active_count_map filter_map comp_def)
  then show ?thesis by (simp add: filter_eq_upt)
qed

lemma order_contiguous_renumber: "order_contiguous (renumber ts)"
  by (simp add: order_contiguous_def map_order_renumber length_renumber)

lemma order_contiguous_activate: "order_contiguous (activate k ts) = order_contiguous ts"
  by (simp add: order_contiguous_def map_activate length_activate)

lemma active_count_mset: "mset xs = mset ys \<Longrightarrow> active_count xs = active_count ys"
  unfolding active_count_def by (metis mset_filter size_mset)

lemma active_count_removeAt:
  "i < length ts \<Longrightarrow>
   active_count (removeAt i ts) + (if isActive (ts ! i) then 1 else 0) = active_count ts"
proof -
  assume "i < length ts"
  then have "ts = take i ts @ ts ! i # drop (Suc i) ts" by (rule id_take_nth_drop)
  then have "active_count ts = active_count (take i ts @ ts ! i # drop (Suc i) ts)" by simp
  then show ?thesis by (simp add: active_count_def removeAt_def)
qed

lemma store_inv_createTab: "store_inv ts \<Longrightarrow> store_inv (createTab newId sess path ts)"
proof -
  assume inv: "store_inv ts"
  have "filter isActive (map (\<lambda>t. t\<lparr>isActive := False\<rparr>) ts) = []"
    by (induction ts) auto
  then have a: "active_count (createTab newId sess path ts) = 1"
    by (simp add: active_count_def createTab_def)
  have "map order (map (\<lambda>t. t\<lparr>isActive := False\<rparr>) ts) = map order ts" by simp
  with inv have o: "order_contiguous (createTab newId sess path ts)"
    by (simp add: order_contiguous_def createTab_def store_inv_def comp_def)
  from a o show ?thesis by (simp add: store_inv_def createTab_def)
qed

lemma store_inv_removeTab:
  assumes inv: "store_inv ts" and i: "i < length ts"
  shows "store_inv (removeTab i ts)"
proof -
  define r where "r = renumber (removeAt i ts)"
  have lr: "length r = length ts - 1" using i by (simp add: r_def length_renumber length_removeAt)
  have oc: "order_contiguous r" by (simp add: r_def order_contiguous_renumber)
  have ne: "ts \<noteq> []" using i by auto
  with inv have one: "active_count ts = 1" by (simp add: store_inv_def)
  have ac: "active_count r + (if isActive (ts ! i) then 1 else 0) = 1"
    using active_count_removeAt[OF i] one by (simp add: r_def active_count_renumber)
  show ?thesis
  proof (cases "isActive (ts ! i) \<and> r \<noteq> []")
    case True
    define k where "k = (if i < length r then i else length r - 1)"
    from True have eq: "removeTab i ts = activate k r"
      by (simp add: removeTab_def r_def Let_def k_def)
    have k: "k < length r" using True by (auto simp: k_def)
    have "activate k r \<noteq> []" using True by (metis length_activate length_0_conv)
    then show ?thesis using oc k eq
      by (simp add: store_inv_def order_contiguous_activate active_count_activate)
  next
    case False
    then have eq: "removeTab i ts = r" by (auto simp: removeTab_def r_def Let_def)
    show ?thesis
    proof (cases "r = []")
      case True
      then show ?thesis using eq by (simp add: store_inv_def order_contiguous_def active_count_def)
    next
      case False
      with \<open>\<not> (isActive (ts ! i) \<and> r \<noteq> [])\<close> have "\<not> isActive (ts ! i)" by simp
      with ac have "active_count r = 1" by simp
      with oc False eq show ?thesis by (simp add: store_inv_def)
    qed
  qed
qed

lemma store_inv_closeTab: "store_inv ts \<Longrightarrow> store_inv (snd (closeTab tid force ts))"
  by (auto simp: closeTab_def store_inv_removeTab dest: find_index_Some split: option.splits)

lemma store_inv_reorderTabs: "store_inv ts \<Longrightarrow> store_inv (reorderTabs fromIndex toIndex ts)"
proof -
  assume inv: "store_inv ts"
  show ?thesis
  proof (cases "reorderTabs fromIndex toIndex ts = ts")
    case True
    with inv show ?thesis by simp
  next
    case False
    then have f: "nat fromIndex < length ts" and t: "nat toIndex < length ts"
      and eq: "reorderTabs fromIndex toIndex ts = renumber (reorder (nat fromIndex) (nat toIndex) ts)"
      by (auto simp: reorderTabs_def split: if_splits)
    have l: "length (reorder (nat fromIndex) (nat toIndex) ts) = length ts"
      using f t by (rule length_reorder)
    have "active_count (reorder (nat fromIndex) (nat toIndex) ts) = active_count ts"
      using mset_reorder[OF f] by (rule active_count_mset)
    moreover have "ts \<noteq> []" using f by auto
    ultimately show ?thesis using inv l eq
      by (auto simp: store_inv_def order_contiguous_renumber active_count_renumber renumber_Nil_iff)
  qed
qed

lemma store_inv_apply_op: "store_inv ts \<Longrightarrow> store_inv (apply_op x ts)"
  by (cases x) (simp_all add: store_inv_createTab store_inv_closeTab store_inv_reorderTabs)

lemma store_inv_apply_ops: "store_inv ts \<Longrightarrow> store_inv (apply_ops xs ts)"
  by (induction xs arbitrary: ts) (simp_all add: store_inv_apply_op)

lemma map_removeAt: "map f (removeAt i xs) = removeAt i (map f xs)"
  by (simp add: removeAt_def take_map drop_map)

lemma map_reorder: "i < length xs \<Longrightarrow> map f (reorder i j xs) = reorder i j (map f xs)"
  by (simp add: reorder_def Let_def map_removeAt[symmetric] take_map drop_map)

lemma map_unordered_renumber: "map unordered (renumber ts) = map unordered ts"
  by (rule nth_equalityI) (simp_all add: renumber_def unordered_def)

lemma reorderTabs_in_range:
  "i < length ts \<Longrightarrow> j < length ts \<Longrightarrow> i \<noteq> j \<Longrightarrow>
   reorderTabs (int i) (int j) ts = renumber (reorder i j ts)"
  by (simp add: reorderTabs_def)

section \<open>The Reorder Engine\<close>

text \<open>
  Claim C4.  For a sequence of tabs and two indices within it, \<^verbatim>\<open>reorderTabs\<close> yields, up
  to the renumbered \<^verbatim>\<open>order\<close> fields, the sequence of the Reorder Engine.  That sequence
  has the same length and the same elements with the same multiplicities (nothing is
  dropped or duplicated); the element of \<open>fromIndex\<close> stands at \<open>toIndex\<close>; without it the
  sequence is the old one without it (the others keep their relative order); the
  elements between the two positions move by one place towards \<open>fromIndex\<close> and all
  others stay.  On \<open>[a, b, c]\<close> the move from 0 to 2 gives \<open>[b, c, a]\<close> and the move
  from 2 to 0 gives \<open>[c, a, b]\<close>.
\<close>

theorem C4_reorder_moves_one_element:
  assumes f: "fromIndex < length ts" and t: "toIndex < length ts"
  shows "map unordered (reorderTabs (int fromIndex) (int toIndex) ts) =
           reorder fromIndex toIndex (map unordered ts)
       \<and> length (reorder fromIndex toIndex ts) = length ts
       \<and> mset (reorder fromIndex toIndex ts) = mset ts
       \<and> reorder fromIndex toIndex ts ! toIndex = ts ! fromIndex
       \<and> removeAt toIndex (reorder fromIndex toIndex ts) = removeAt fromIndex ts
       \<and> (\<forall>k<length ts. reorder fromIndex toIndex ts ! k =
             (if k = toIndex then ts ! fromIndex
              else if fromIndex \<le> k \<and> k < toIndex then ts ! Suc k
              else if toIndex < k \<and> k \<le> fromIndex then ts ! (k - 1)
              else ts ! k))
       \<and> reorder 0 2 [a, b, c :: tab_id] = [b, c, a]
       \<and> reorder 2 0 [a, b, c :: tab_id] = [c, a, b]"
proof -
  have store: "map unordered (reorderTabs (int fromIndex) (int toIndex) ts) =
           reorder fromIndex toIndex (map unordered ts)"
  proof (cases "fromIndex = toIndex")
    case True
    then show ?thesis using f by (simp add: reorderTabs_def reorder_same)
  next
    case False
    then show ?thesis using f t
      by (simp add: reorderTabs_in_range map_unordered_renumber map_reorder)
  qed
  have shift: "\<forall>k<length ts. reorder fromIndex toIndex ts ! k =
             (if k = toIndex then ts ! fromIndex
              else if fromIndex \<le> k \<and> k < toIndex then ts ! Suc k
              else if toIndex < k \<and> k \<le> fromIndex then ts ! (k - 1)
              else ts ! k)"
    using nth_reorder[OF f t] by blast
  have ex1: "reorder 0 2 [a, b, c] = [b, c, a]" by (simp add: reorder_def removeAt_def)
  have ex2: "reorder 2 0 [a, b, c] = [c, a, b]" by (simp add: reorder_def removeAt_def)
  from store length_reorder[OF f t] mset_reorder[OF f] nth_reorder_target[OF f t]
    removeAt_reorder[OF f t] shift ex1 ex2
  show ?thesis by blast
qed

text \<open>The same on the store of the tabs A, B and C.\<close>

theorem C4_reorder_abc_witness:
  "map tab_id (reorderTabs 0 2 abc_store) = [''B'', ''C'', ''A'']
   \<and> map tab_id (reorderTabs 2 0 abc_store) = [''C'', ''A'', ''B'']
   \<and> map unordered (reorderTabs 0 2 abc_store) = reorder 0 2 (map unordered abc_store)
   \<and> mset (reorder 0 2 abc_store) = mset abc_store
   \<and> reorder 0 2 abc_store ! 2 = abc_store ! 0
   \<and> removeAt 2 (reorder 0 2 abc_store) = removeAt 0 abc_store"
proof -
  have l0: "0 < length abc_store" and l2: "2 < length abc_store" by (simp_all add: abc_store_def)
  have ids1: "map tab_id (reorderTabs 0 2 abc_store) = [''B'', ''C'', ''A'']"
    by (simp add: reorderTabs_def abc_store_def example_tab_def reorder_def removeAt_def renumber_def upt_rec)
  have ids2: "map tab_id (reorderTabs 2 0 abc_store) = [''C'', ''A'', ''B'']"
    by (simp add: reorderTabs_def abc_store_def example_tab_def reorder_def removeAt_def renumber_def upt_rec)
  from C4_reorder_moves_one_element[OF l0 l2, of "''A''" "''B''" "''C''"] ids1 ids2 show ?thesis by simp
qed

section \<open>Removing a tab\<close>

lemma length_removeTab: "i < length ts \<Longrightarrow> length (removeTab i ts) = length ts - 1"
  by (simp add: removeTab_def Let_def length_activate length_renumber length_removeAt)

lemma map_removeTab:
  assumes "\<And>t k. f (t\<lparr>order := k\<rparr>) = f t" and "\<And>t b. f (t\<lparr>isActive := b\<rparr>) = f t"
  shows "map f (removeTab i ts) = removeAt i (map f ts)"
  using assms by (simp add: removeTab_def Let_def map_activate map_renumber map_removeAt)

lemma map_order_removeTab: "i < length ts \<Longrightarrow> map order (removeTab i ts) = [0..<length ts - 1]"
  by (simp add: removeTab_def Let_def map_activate map_order_renumber length_removeAt)

lemma removeTab_active_nth:
  assumes i: "i < length ts" and act: "isActive (ts ! i)" and k: "k < length ts - 1"
  shows "isActive (removeTab i ts ! k) \<longleftrightarrow> k = (if Suc i < length ts then i else i - 1)"
proof -
  define r where "r = renumber (removeAt i ts)"
  have lr: "length r = length ts - 1" using i by (simp add: r_def length_renumber length_removeAt)
  with k have ne: "r \<noteq> []" by auto
  define k0 where "k0 = (if i < length r then i else length r - 1)"
  have eq: "removeTab i ts = activate k0 r"
    using act ne by (simp add: removeTab_def Let_def r_def k0_def)
  have "k0 = (if Suc i < length ts then i else i - 1)" using i lr by (auto simp: k0_def)
  moreover have "isActive (activate k0 r ! k) \<longleftrightarrow> k = k0" using k lr by (simp add: nth_activate)
  ultimately show ?thesis using eq by simp
qed

lemma removeTab_inactive:
  "\<not> isActive (ts ! i) \<Longrightarrow> map isActive (removeTab i ts) = removeAt i (map isActive ts)"
  by (simp add: removeTab_def Let_def map_renumber map_removeAt)

lemma closeTab_found:
  "find_index (\<lambda>t. tab_id t = tid) ts = Some i \<Longrightarrow>
   closeTab tid force ts =
     (if hasUnsavedChanges (ts ! i) \<and> \<not> force then (NeedsConfirmation tid, ts)
      else (Closed, removeTab i ts))"
  by (simp add: closeTab_def)

lemma closeTab_unknown:
  "find_index (\<lambda>t. tab_id t = tid) ts = None \<Longrightarrow> closeTab tid force ts = (Closed, ts)"
  by (simp add: closeTab_def)

lemma closeTab_force: "fst (closeTab tid True ts) = Closed"
  by (simp add: closeTab_def split: option.splits)

section \<open>The invariants of the Tab Store\<close>

text \<open>
  Claim C1.  From a store that satisfies the two invariants (the empty store among them),
  every sequence of \<^verbatim>\<open>createTab\<close>, \<^verbatim>\<open>closeTab\<close> and \<^verbatim>\<open>reorderTabs\<close> leads to a store
  whose \<^verbatim>\<open>order\<close> values are a permutation of \<open>[0, n)\<close> for its \<open>n\<close> tabs, without
  duplicates and without gaps, and in which at most one tab is active, and exactly one
  when the store is not empty.
\<close>

theorem C1_store_invariants:
  assumes "store_inv ts"
  shows "mset (map order (apply_ops xs ts)) = mset [0..<length (apply_ops xs ts)]
       \<and> distinct (map order (apply_ops xs ts))
       \<and> set (map order (apply_ops xs ts)) = {0..<length (apply_ops xs ts)}
       \<and> length (filter isActive (apply_ops xs ts)) \<le> 1
       \<and> (apply_ops xs ts \<noteq> [] \<longrightarrow> length (filter isActive (apply_ops xs ts)) = 1)
       \<and> store_inv (apply_ops xs [])"
proof -
  define r where "r = apply_ops xs ts"
  have inv: "store_inv r" unfolding r_def using assms by (rule store_inv_apply_ops)
  then have m: "mset (map order r) = mset [0..<length r]"
    by (simp add: store_inv_def order_contiguous_def)
  from m have d: "distinct (map order r)" by (metis distinct_upt mset_eq_imp_distinct_iff)
  from m have s: "set (map order r) = {0..<length r}" by (metis mset_eq_setD set_upt)
  from inv have a: "length (filter isActive r) = (if r = [] then 0 else 1)"
    by (simp add: store_inv_def active_count_def)
  have "store_inv []"
    by (simp add: store_inv_def order_contiguous_def active_count_def)
  then have e: "store_inv (apply_ops xs [])" by (rule store_inv_apply_ops)
  from m d s a e show ?thesis unfolding r_def by simp
qed

lemma abc_store_inv: "store_inv abc_store"
  by (simp add: store_inv_def order_contiguous_def active_count_def abc_store_def example_tab_def upt_rec)

text \<open>
  On the store of A (active), B (unsaved) and C: close A, create D, move the first tab to
  the end, ask to close B, close B by force.  The tabs C and D remain, D active.
\<close>

theorem C1_store_invariants_witness:
  "store_inv abc_store
   \<and> map (\<lambda>t. (tab_id t, order t, isActive t))
        (apply_ops [CloseTab ''A'' False, CreateTab ''D'' None None, ReorderTabs 0 2,
                    CloseTab ''B'' False, CloseTab ''B'' True] abc_store)
      = [(''C'', 0, False), (''D'', 1, True)]
   \<and> distinct (map order (apply_ops [CloseTab ''A'' False, CreateTab ''D'' None None, ReorderTabs 0 2,
                    CloseTab ''B'' False, CloseTab ''B'' True] abc_store))
   \<and> length (filter isActive (apply_ops [CloseTab ''A'' False, CreateTab ''D'' None None, ReorderTabs 0 2,
                    CloseTab ''B'' False, CloseTab ''B'' True] abc_store)) = 1"
proof -
  have run: "map (\<lambda>t. (tab_id t, order t, isActive t))
        (apply_ops [CloseTab ''A'' False, CreateTab ''D'' None None, ReorderTabs 0 2,
                    CloseTab ''B'' False, CloseTab ''B'' True] abc_store)
      = [(''C'', 0, False), (''D'', 1, True)]"
    by code_simp
  then have "apply_ops [CloseTab ''A'' False, CreateTab ''D'' None None, ReorderTabs 0 2,
                    CloseTab ''B'' False, CloseTab ''B'' True] abc_store \<noteq> []" by auto
  with C1_store_invariants[OF abc_store_inv, of "[CloseTab ''A'' False, CreateTab ''D'' None None, ReorderTabs 0 2,
                    CloseTab ''B'' False, CloseTab ''B'' True]"] abc_store_inv run
  show ?thesis by simp
qed

section \<open>Closing the active tab\<close>

lemma abc_find_A: "find_index (\<lambda>t. tab_id t = ''A'') abc_store = Some 0"
  by (simp add: abc_store_def example_tab_def)

lemma active_count_removeTab_active:
  assumes i: "i < length ts" and act: "isActive (ts ! i)" and ne: "removeTab i ts \<noteq> []"
  shows "active_count (removeTab i ts) = 1"
proof -
  define r where "r = renumber (removeAt i ts)"
  have "length (removeTab i ts) = length r"
    using i by (simp add: length_removeTab r_def length_renumber length_removeAt)
  with ne have rne: "r \<noteq> []" by auto
  define k0 where "k0 = (if i < length r then i else length r - 1)"
  have eq: "removeTab i ts = activate k0 r"
    using act rne by (simp add: removeTab_def Let_def r_def k0_def)
  have "k0 < length r" using rne by (auto simp: k0_def)
  then show ?thesis by (simp add: eq active_count_activate)
qed

text \<open>
  Claim C3.  When \<^verbatim>\<open>closeTab\<close> removes the active tab (the first tab with the identifier,
  at position \<open>i\<close>, closed by force or with nothing unsaved), the remaining tabs keep
  their sequence and are renumbered, and exactly one position of the result is active:
  position \<open>i\<close>, which now holds the former successor, when there was one, and otherwise
  position \<open>i - 1\<close> with the former predecessor; when \<^verbatim>\<open>order\<close> was the position before,
  this is the \<^verbatim>\<open>order\<close> of the closed tab, or the one below.  The result is empty only when the
  closed tab was the only one, and a result that is not empty has exactly one active tab.
  Closing A in the store of A (active), B and C activates B.
\<close>

theorem C3_close_active_tab:
  assumes found: "find_index (\<lambda>t. tab_id t = tid) ts = Some i"
    and active: "isActive (ts ! i)"
    and allowed: "force \<or> \<not> hasUnsavedChanges (ts ! i)"
  shows "fst (closeTab tid force ts) = Closed
       \<and> map tab_id (snd (closeTab tid force ts)) = removeAt i (map tab_id ts)
       \<and> map order (snd (closeTab tid force ts)) = [0..<length ts - 1]
       \<and> (\<forall>k<length ts - 1.
             isActive (snd (closeTab tid force ts) ! k) \<longleftrightarrow>
               k = (if Suc i < length ts then i else i - 1))
       \<and> (Suc i < length ts \<longrightarrow>
             isActive (snd (closeTab tid force ts) ! i)
           \<and> tab_id (snd (closeTab tid force ts) ! i) = tab_id (ts ! Suc i))
       \<and> (Suc i = length ts \<and> 0 < i \<longrightarrow>
             isActive (snd (closeTab tid force ts) ! (i - 1))
           \<and> tab_id (snd (closeTab tid force ts) ! (i - 1)) = tab_id (ts ! (i - 1)))
       \<and> (map order ts = [0..<length ts] \<and> Suc i < length ts \<longrightarrow>
             order (snd (closeTab tid force ts) ! i) = order (ts ! i))
       \<and> (map order ts = [0..<length ts] \<and> Suc i = length ts \<and> 0 < i \<longrightarrow>
             order (snd (closeTab tid force ts) ! (i - 1)) = order (ts ! i) - 1)
       \<and> (snd (closeTab tid force ts) = [] \<longleftrightarrow> length ts = 1)
       \<and> (snd (closeTab tid force ts) \<noteq> [] \<longrightarrow> active_count (snd (closeTab tid force ts)) = 1)
       \<and> map (\<lambda>t. (tab_id t, isActive t)) (snd (closeTab ''A'' False abc_store))
           = [(''B'', True), (''C'', False)]"
proof -
  define r where "r = removeTab i ts"
  from found have i: "i < length ts" by (simp add: find_index_Some)
  have res: "closeTab tid force ts = (Closed, r)"
    using found allowed by (auto simp: closeTab_found r_def)
  have lr: "length r = length ts - 1" using i by (simp add: r_def length_removeTab)
  have ids: "map tab_id r = removeAt i (map tab_id ts)"
    unfolding r_def by (rule map_removeTab) simp_all
  have ord: "map order r = [0..<length ts - 1]"
    unfolding r_def using i by (rule map_order_removeTab)
  have act: "\<forall>k<length ts - 1. isActive (r ! k) \<longleftrightarrow> k = (if Suc i < length ts then i else i - 1)"
    unfolding r_def using removeTab_active_nth[OF i active] by blast
  have idk: "\<And>k. k < length ts - 1 \<Longrightarrow> tab_id (r ! k) = removeAt i (map tab_id ts) ! k"
    using ids lr by (metis nth_map)
  have nxt: "Suc i < length ts \<longrightarrow> isActive (r ! i) \<and> tab_id (r ! i) = tab_id (ts ! Suc i)"
  proof
    assume s: "Suc i < length ts"
    then have k: "i < length ts - 1" by arith
    have "tab_id (r ! i) = removeAt i (map tab_id ts) ! i" using k by (rule idk)
    also have "\<dots> = map tab_id ts ! Suc i" using i k by (simp add: nth_removeAt)
    finally have "tab_id (r ! i) = tab_id (ts ! Suc i)" using s by simp
    moreover have "isActive (r ! i)" using act k s by simp
    ultimately show "isActive (r ! i) \<and> tab_id (r ! i) = tab_id (ts ! Suc i)" by simp
  qed
  have prv: "Suc i = length ts \<and> 0 < i \<longrightarrow>
      isActive (r ! (i - 1)) \<and> tab_id (r ! (i - 1)) = tab_id (ts ! (i - 1))"
  proof
    assume s: "Suc i = length ts \<and> 0 < i"
    then have k: "i - 1 < length ts - 1" by arith
    have "tab_id (r ! (i - 1)) = removeAt i (map tab_id ts) ! (i - 1)" using k by (rule idk)
    also have "\<dots> = map tab_id ts ! (i - 1)" using i k s by (simp add: nth_removeAt)
    finally have "tab_id (r ! (i - 1)) = tab_id (ts ! (i - 1))" using i by simp
    moreover have "isActive (r ! (i - 1))" using act k s by simp
    ultimately show "isActive (r ! (i - 1)) \<and> tab_id (r ! (i - 1)) = tab_id (ts ! (i - 1))"
      by simp
  qed
  have ordk: "\<And>k. k < length ts - 1 \<Longrightarrow> order (r ! k) = k"
  proof -
    fix k assume k: "k < length ts - 1"
    then have "order (r ! k) = map order r ! k" using lr by simp
    also have "\<dots> = k" using k by (simp add: ord)
    finally show "order (r ! k) = k" .
  qed
  have same: "map order ts = [0..<length ts] \<and> Suc i < length ts \<longrightarrow> order (r ! i) = order (ts ! i)"
  proof
    assume a: "map order ts = [0..<length ts] \<and> Suc i < length ts"
    then have "map order ts ! i = i" using i by simp
    then have "order (ts ! i) = i" using i by simp
    moreover have "order (r ! i) = i" using a by (intro ordk) arith
    ultimately show "order (r ! i) = order (ts ! i)" by simp
  qed
  have lower: "map order ts = [0..<length ts] \<and> Suc i = length ts \<and> 0 < i \<longrightarrow>
      order (r ! (i - 1)) = order (ts ! i) - 1"
  proof
    assume a: "map order ts = [0..<length ts] \<and> Suc i = length ts \<and> 0 < i"
    then have "map order ts ! i = i" using i by simp
    then have "order (ts ! i) = i" using i by simp
    moreover have "order (r ! (i - 1)) = i - 1" using a by (intro ordk) arith
    ultimately show "order (r ! (i - 1)) = order (ts ! i) - 1" by simp
  qed
  have "(r = []) = (length r = 0)" by simp
  with lr i have emp: "r = [] \<longleftrightarrow> length ts = 1" by auto
  have one: "r \<noteq> [] \<longrightarrow> active_count r = 1"
    unfolding r_def using active_count_removeTab_active[OF i active] by blast
  have ex: "map (\<lambda>t. (tab_id t, isActive t)) (snd (closeTab ''A'' False abc_store))
           = [(''B'', True), (''C'', False)]"
    by code_simp
  from res ids ord act nxt prv same lower emp one ex show ?thesis by simp
qed

text \<open>Closing the active first tab A, and closing the active last tab C, of three.\<close>

theorem C3_close_active_tab_witness:
  "find_index (\<lambda>t. tab_id t = ''A'') abc_store = Some 0
   \<and> isActive (abc_store ! 0)
   \<and> \<not> hasUnsavedChanges (abc_store ! 0)
   \<and> fst (closeTab ''A'' False abc_store) = Closed
   \<and> map tab_id (snd (closeTab ''A'' False abc_store)) = [''B'', ''C'']
   \<and> map order (snd (closeTab ''A'' False abc_store)) = [0, 1]
   \<and> isActive (snd (closeTab ''A'' False abc_store) ! 0)
   \<and> tab_id (snd (closeTab ''A'' False abc_store) ! 0) = ''B''
   \<and> active_count (snd (closeTab ''A'' False abc_store)) = 1
   \<and> find_index (\<lambda>t. tab_id t = ''C'') (activate 2 abc_store) = Some 2
   \<and> isActive (activate 2 abc_store ! 2)
   \<and> isActive (snd (closeTab ''C'' False (activate 2 abc_store)) ! 1)
   \<and> tab_id (snd (closeTab ''C'' False (activate 2 abc_store)) ! 1) = ''B''"
proof -
  have a: "isActive (abc_store ! 0)" and u: "False \<or> \<not> hasUnsavedChanges (abc_store ! 0)"
    and l: "length abc_store = 3"
    by (simp_all add: abc_store_def example_tab_def)
  have f2: "find_index (\<lambda>t. tab_id t = ''C'') (activate 2 abc_store) = Some 2"
    and a2: "isActive (activate 2 abc_store ! 2)"
    and u2: "False \<or> \<not> hasUnsavedChanges (activate 2 abc_store ! 2)"
    and l2: "length (activate 2 abc_store) = 3"
    and b2: "tab_id (activate 2 abc_store ! 1) = ''B''"
    by (simp_all add: abc_store_def example_tab_def activate_def upt_rec)
  have ne: "snd (closeTab ''A'' False abc_store) \<noteq> []"
    using C3_close_active_tab[OF abc_find_A a u] l by simp
  from C3_close_active_tab[OF abc_find_A a u] C3_close_active_tab[OF f2 a2 u2] a u l f2 a2 l2 b2 ne
  show ?thesis
    by (simp add: abc_find_A abc_store_def example_tab_def removeAt_def upt_rec)
qed

section \<open>Reordering that changes nothing\<close>

lemma findIndex_range: "findIndex P xs = - 1 \<or> (0 \<le> findIndex P xs \<and> findIndex P xs < int (length xs))"
  by (auto simp: findIndex_def dest: find_index_Some split: option.splits)

lemma handleTabDrop_call:
  "snd (handleTabDrop target ui ts) = Some (f, t) \<longleftrightarrow>
     truthy (draggedTab ui) \<and> t = target \<and> f \<noteq> target \<and> f \<noteq> - 1
     \<and> f = findIndex (\<lambda>x. Some (tab_id x) = draggedTab ui) ts"
  by (auto simp: handleTabDrop_def Let_def)

text \<open>
  Claim C5.  \<^verbatim>\<open>reorderTabs(i, i)\<close> leaves the store as it is, and so does the Reorder Engine
  itself at a valid index; \<^verbatim>\<open>reorderTabs\<close> with an index below zero or not below the
  number of tabs leaves the store as it is.  When the drop handler calls \<^verbatim>\<open>reorderTabs\<close>,
  the source index is the position of the dragged tab, lies within the tabs and differs
  from the target; when the dragged tab is not found or lies at the target, the handler
  makes no call and the store stays as it is.
\<close>

theorem C5_reorder_noop_and_rejection:
  "reorderTabs i i ts = ts
   \<and> (k < length ts \<longrightarrow> reorder k k ts = ts)
   \<and> (fromIndex < 0 \<or> int (length ts) \<le> fromIndex \<or> toIndex < 0 \<or> int (length ts) \<le> toIndex
        \<longrightarrow> reorderTabs fromIndex toIndex ts = ts)
   \<and> (snd (handleTabDrop target ui ts) = Some (f, t) \<longrightarrow>
         t = target \<and> f \<noteq> target \<and> 0 \<le> f \<and> f < int (length ts)
       \<and> f = findIndex (\<lambda>x. Some (tab_id x) = draggedTab ui) ts)
   \<and> (findIndex (\<lambda>x. Some (tab_id x) = draggedTab ui) ts = - 1
        \<or> findIndex (\<lambda>x. Some (tab_id x) = draggedTab ui) ts = target
        \<longrightarrow> snd (handleTabDrop target ui ts) = None \<and> snd (dropTab target (ui, ts)) = ts)"
proof -
  have same: "reorderTabs i i ts = ts" by (simp add: reorderTabs_def)
  have engine: "k < length ts \<longrightarrow> reorder k k ts = ts" by (simp add: reorder_same)
  have range: "fromIndex < 0 \<or> int (length ts) \<le> fromIndex \<or> toIndex < 0 \<or> int (length ts) \<le> toIndex
        \<longrightarrow> reorderTabs fromIndex toIndex ts = ts"
    by (auto simp: reorderTabs_def)
  have call: "snd (handleTabDrop target ui ts) = Some (f, t) \<longrightarrow>
         t = target \<and> f \<noteq> target \<and> 0 \<le> f \<and> f < int (length ts)
       \<and> f = findIndex (\<lambda>x. Some (tab_id x) = draggedTab ui) ts"
    using findIndex_range[of "\<lambda>x. Some (tab_id x) = draggedTab ui" ts]
    by (auto simp: handleTabDrop_call)
  have none: "findIndex (\<lambda>x. Some (tab_id x) = draggedTab ui) ts = - 1
        \<or> findIndex (\<lambda>x. Some (tab_id x) = draggedTab ui) ts = target
        \<longrightarrow> snd (handleTabDrop target ui ts) = None \<and> snd (dropTab target (ui, ts)) = ts"
    by (auto simp: handleTabDrop_def dropTab_def Let_def)
  from same engine range call none show ?thesis by blast
qed

text \<open>
  On the store of A, B and C: equal indices, an index beyond the end, a negative index;
  dropping A on position 2 calls \<^verbatim>\<open>reorderTabs(0, 2)\<close>, dropping B on its own position
  and dropping an unknown tab call nothing.
\<close>

theorem C5_reorder_noop_and_rejection_witness:
  "reorderTabs 1 1 abc_store = abc_store
   \<and> reorder 1 1 abc_store = abc_store
   \<and> reorderTabs 3 0 abc_store = abc_store
   \<and> reorderTabs 0 (- 1) abc_store = abc_store
   \<and> handleTabDrop 2 (handleTabDragStart ''A'' ui0) abc_store = (ui0, Some (0, 2))
   \<and> handleTabDrop 1 (handleTabDragStart ''B'' ui0) abc_store = (ui0, None)
   \<and> snd (dropTab 1 (handleTabDragStart ''B'' ui0, abc_store)) = abc_store
   \<and> handleTabDrop 1 (handleTabDragStart ''Z'' ui0) abc_store = (ui0, None)
   \<and> snd (dropTab 1 (handleTabDragStart ''Z'' ui0, abc_store)) = abc_store"
proof -
  have l: "(1::nat) < length abc_store" "int (length abc_store) \<le> 3" "(- 1 :: int) < 0"
    by (simp_all add: abc_store_def)
  have fA: "findIndex (\<lambda>x. Some (tab_id x) = draggedTab (handleTabDragStart ''A'' ui0)) abc_store = 0"
    and fB: "findIndex (\<lambda>x. Some (tab_id x) = draggedTab (handleTabDragStart ''B'' ui0)) abc_store = 1"
    and fZ: "findIndex (\<lambda>x. Some (tab_id x) = draggedTab (handleTabDragStart ''Z'' ui0)) abc_store = - 1"
    by (simp_all add: findIndex_def handleTabDragStart_def ui0_def abc_store_def example_tab_def)
  have hA: "handleTabDrop 2 (handleTabDragStart ''A'' ui0) abc_store = (ui0, Some (0, 2))"
    and hB: "handleTabDrop 1 (handleTabDragStart ''B'' ui0) abc_store = (ui0, None)"
    and hZ: "handleTabDrop 1 (handleTabDragStart ''Z'' ui0) abc_store = (ui0, None)"
    by (simp_all add: handleTabDrop_def Let_def fA fB fZ)
       (simp_all add: handleTabDragStart_def ui0_def truthy_def)
  from C5_reorder_noop_and_rejection[of 1 abc_store 1 3 0 2 "handleTabDragStart ''A'' ui0" 0 2]
       C5_reorder_noop_and_rejection[of 1 abc_store 1 0 "- 1" 1 "handleTabDragStart ''B'' ui0" 0 2]
       C5_reorder_noop_and_rejection[of 1 abc_store 1 0 "- 1" 1 "handleTabDragStart ''Z'' ui0" 0 2]
       l fA fB fZ hA hB hZ
  show ?thesis by simp
qed

section \<open>The closure confirmation flow\<close>







section \<open>Closing all tabs, closing the other tabs\<close>

lemma removeAt_Cons_Suc: "removeAt (Suc k) (x # xs) = x # removeAt k xs"
  by (simp add: removeAt_def)

lemma removeAt_distinct:
  "distinct xs \<Longrightarrow> i < length xs \<Longrightarrow> removeAt i xs = filter (\<lambda>x. x \<noteq> xs ! i) xs"
proof (induction xs arbitrary: i)
  case Nil
  then show ?case by simp
next
  case (Cons x xs)
  show ?case
  proof (cases i)
    case 0
    have "filter (\<lambda>y. y \<noteq> x) xs = xs" using Cons.prems by (auto simp: filter_id_conv)
    then show ?thesis using 0 by (simp add: removeAt_def)
  next
    case (Suc k)
    with Cons.prems have k: "k < length xs" and d: "distinct xs" and nin: "x \<notin> set xs" by auto
    from k nin have "x \<noteq> xs ! k" by (metis nth_mem)
    with Cons.IH[OF d k] Suc show ?thesis by (simp add: removeAt_Cons_Suc)
  qed
qed

lemma distinct_removeAt: "distinct xs \<Longrightarrow> distinct (removeAt i xs)"
  by (cases "i < length xs") (simp_all add: removeAt_distinct, simp add: removeAt_def)

lemma run_closeTab_forced_results:
  "list_all snd cs \<Longrightarrow> fst (run_closeTab cs ts) = replicate (length cs) Closed"
  by (induction cs arbitrary: ts) (auto simp: Let_def closeTab_force)

lemma closeTab_force_ids:
  assumes "distinct (map tab_id ts)"
  shows "map tab_id (snd (closeTab tid True ts)) = filter (\<lambda>x. x \<noteq> tid) (map tab_id ts)"
proof (cases "find_index (\<lambda>t. tab_id t = tid) ts")
  case None
  then have "\<forall>x\<in>set (map tab_id ts). x \<noteq> tid" by (auto simp: find_index_None)
  then have "filter (\<lambda>x. x \<noteq> tid) (map tab_id ts) = map tab_id ts"
    by (simp only: filter_id_conv)
  then show ?thesis using None by (simp add: closeTab_unknown)
next
  case (Some i)
  have i: "i < length ts" and id: "tab_id (ts ! i) = tid" using find_index_Some[OF Some] by simp_all
  have "map tab_id (removeTab i ts) = removeAt i (map tab_id ts)"
    by (rule map_removeTab) simp_all
  also have "\<dots> = filter (\<lambda>x. x \<noteq> map tab_id ts ! i) (map tab_id ts)"
    using assms i by (intro removeAt_distinct) simp_all
  finally show ?thesis using Some i id by (simp add: closeTab_found)
qed

lemma run_closeTab_forced_ids:
  "list_all snd cs \<Longrightarrow> distinct (map tab_id ts) \<Longrightarrow>
   map tab_id (snd (run_closeTab cs ts)) =
     filter (\<lambda>x. x \<notin> set (map fst cs)) (map tab_id ts)"
proof (induction cs arbitrary: ts)
  case Nil
  then show ?case by simp
next
  case (Cons c cs)
  obtain tid force where c: "c = (tid, force)" by (cases c)
  with Cons.prems have f: "force = True" and all: "list_all snd cs" by simp_all
  define ts' where "ts' = snd (closeTab tid True ts)"
  have ids: "map tab_id ts' = filter (\<lambda>x. x \<noteq> tid) (map tab_id ts)"
    unfolding ts'_def using Cons.prems(2) by (rule closeTab_force_ids)
  then have d: "distinct (map tab_id ts')" using Cons.prems(2) by simp
  have "map tab_id (snd (run_closeTab (c # cs) ts)) = map tab_id (snd (run_closeTab cs ts'))"
    by (simp add: c f Let_def ts'_def)
  also have "\<dots> = filter (\<lambda>x. x \<notin> set (map fst cs)) (map tab_id ts')"
    using all d by (rule Cons.IH)
  also have "\<dots> = filter (\<lambda>x. x \<notin> set (map fst (c # cs))) (map tab_id ts)"
    by (auto simp: ids c intro: filter_cong)
  finally show ?case .
qed

lemma run_closeTab_inv: "store_inv ts \<Longrightarrow> store_inv (snd (run_closeTab cs ts))"
  by (induction cs arbitrary: ts) (simp_all add: Let_def store_inv_closeTab)

lemma run_closeTab_all_empty:
  "list_all snd cs \<Longrightarrow> mset (map fst cs) = mset (map tab_id ts) \<Longrightarrow>
   snd (run_closeTab cs ts) = []"
proof (induction cs arbitrary: ts)
  case Nil
  then show ?case by simp
next
  case (Cons c cs)
  obtain tid force where c: "c = (tid, force)" by (cases c)
  with Cons.prems have f: "force = True" and all: "list_all snd cs" by simp_all
  have "tid \<in># mset (map tab_id ts)" using Cons.prems(2) c by (metis fst_conv list.simps(9) mset.simps(2) union_single_eq_member)
  then have "tid \<in> set (map tab_id ts)" by simp
  then have "find_index (\<lambda>t. tab_id t = tid) ts \<noteq> None" by (auto simp: find_index_None)
  then obtain i where found: "find_index (\<lambda>t. tab_id t = tid) ts = Some i" by auto
  have i: "i < length ts" and id: "tab_id (ts ! i) = tid" using find_index_Some[OF found] by simp_all
  have cl: "closeTab tid True ts = (Closed, removeTab i ts)" using found by (simp add: closeTab_found)
  have ids: "map tab_id (removeTab i ts) = removeAt i (map tab_id ts)"
    by (rule map_removeTab) simp_all
  have "add_mset tid (mset (removeAt i (map tab_id ts))) = mset (map tab_id ts)"
    using mset_removeAt[of i "map tab_id ts"] i id by simp
  moreover have "add_mset tid (mset (map fst cs)) = mset (map tab_id ts)"
    using Cons.prems(2) c by simp
  ultimately have "mset (map fst cs) = mset (removeAt i (map tab_id ts))"
    by (metis add_mset_add_mset_same_iff)
  then have "mset (map fst cs) = mset (map tab_id (removeTab i ts))"
    by (simp only: ids)
  with all have "snd (run_closeTab cs (removeTab i ts)) = []" by (rule Cons.IH)
  then show ?case by (simp add: c f cl Let_def)
qed

lemma inactive_ids:
  assumes "distinct (map tab_id ts)"
  shows "filter (\<lambda>x. x \<notin> set (map tab_id (filter (\<lambda>t. \<not> isActive t) ts))) (map tab_id ts)
         = map tab_id (filter isActive ts)"
proof -
  have "\<And>t. t \<in> set ts \<Longrightarrow>
      (tab_id t \<notin> set (map tab_id (filter (\<lambda>t. \<not> isActive t) ts))) = isActive t"
  proof -
    fix t assume t: "t \<in> set ts"
    have inj: "inj_on tab_id (set ts)" using assms by (simp add: distinct_map)
    show "(tab_id t \<notin> set (map tab_id (filter (\<lambda>t. \<not> isActive t) ts))) = isActive t"
    proof
      assume "tab_id t \<notin> set (map tab_id (filter (\<lambda>t. \<not> isActive t) ts))"
      with t show "isActive t" by auto
    next
      assume a: "isActive t"
      show "tab_id t \<notin> set (map tab_id (filter (\<lambda>t. \<not> isActive t) ts))"
      proof
        assume "tab_id t \<in> set (map tab_id (filter (\<lambda>t. \<not> isActive t) ts))"
        then obtain u where u: "u \<in> set ts" "\<not> isActive u" "tab_id u = tab_id t" by auto
        with inj t have "u = t" by (auto dest: inj_onD)
        with u a show False by simp
      qed
    qed
  qed
  then show ?thesis by (simp add: filter_map comp_def cong: filter_cong)
qed

lemma closeAll_calls_forced: "list_all snd (closeAll_calls ts)"
  by (simp add: closeAll_calls_def list_all_iff)

lemma closeOthers_calls_forced: "list_all snd (closeOthers_calls ts)"
  by (simp add: closeOthers_calls_def list_all_iff)

text \<open>
  Claim C10.  The menu entry ``close all tabs'' calls \<^verbatim>\<open>closeTab(id, true)\<close> for every tab
  and ``close other tabs'' for every tab that is not active.  Every one of these calls
  returns \<^verbatim>\<open>closed\<close>, none a request for confirmation, whatever the tabs have unsaved.
  After ``close all tabs'' the store is empty; after ``close other tabs'' (identifiers
  being unique) exactly the active tabs remain, and the invariants of the store are kept.
  Neither entry changes \<^verbatim>\<open>tabToClose\<close>, so neither opens the dialog.
\<close>

theorem C10_bulk_close_forces:
  "closeAll_calls ts = map (\<lambda>t. (tab_id t, True)) ts
   \<and> closeOthers_calls ts = map (\<lambda>t. (tab_id t, True)) (filter (\<lambda>t. \<not> isActive t) ts)
   \<and> fst (run_closeTab (closeAll_calls ts) ts) = replicate (length ts) Closed
   \<and> fst (run_closeTab (closeOthers_calls ts) ts)
       = replicate (length (filter (\<lambda>t. \<not> isActive t) ts)) Closed
   \<and> closeAllTabs (ui, ts) = (ui, [])
   \<and> fst (closeOtherTabs (ui, ts)) = ui
   \<and> (distinct (map tab_id ts) \<longrightarrow>
         map tab_id (snd (closeOtherTabs (ui, ts))) = map tab_id (filter isActive ts))
   \<and> (store_inv ts \<longrightarrow> store_inv (snd (closeOtherTabs (ui, ts))))
   \<and> dialog_open (fst (closeAllTabs (ui, ts))) = dialog_open ui
   \<and> dialog_open (fst (closeOtherTabs (ui, ts))) = dialog_open ui"
proof -
  have r1: "fst (run_closeTab (closeAll_calls ts) ts) = replicate (length ts) Closed"
    using run_closeTab_forced_results[OF closeAll_calls_forced, of ts ts]
    by (simp add: closeAll_calls_def)
  have r2: "fst (run_closeTab (closeOthers_calls ts) ts)
       = replicate (length (filter (\<lambda>t. \<not> isActive t) ts)) Closed"
    using run_closeTab_forced_results[OF closeOthers_calls_forced, of ts ts]
    by (simp add: closeOthers_calls_def)
  have "mset (map fst (closeAll_calls ts)) = mset (map tab_id ts)"
    by (simp add: closeAll_calls_def comp_def)
  with closeAll_calls_forced have "snd (run_closeTab (closeAll_calls ts) ts) = []"
    by (rule run_closeTab_all_empty)
  then have all: "closeAllTabs (ui, ts) = (ui, [])" by (simp add: closeAllTabs_def)
  have u: "fst (closeOtherTabs (ui, ts)) = ui" by (simp add: closeOtherTabs_def)
  have others: "distinct (map tab_id ts) \<longrightarrow>
         map tab_id (snd (closeOtherTabs (ui, ts))) = map tab_id (filter isActive ts)"
  proof
    assume d: "distinct (map tab_id ts)"
    have e1: "map tab_id (snd (run_closeTab (closeOthers_calls ts) ts)) =
        filter (\<lambda>x. x \<notin> set (map fst (closeOthers_calls ts))) (map tab_id ts)"
      by (rule run_closeTab_forced_ids[OF closeOthers_calls_forced d])
    have e2: "map fst (closeOthers_calls ts) = map tab_id (filter (\<lambda>t. \<not> isActive t) ts)"
      by (simp add: closeOthers_calls_def comp_def)
    show "map tab_id (snd (closeOtherTabs (ui, ts))) = map tab_id (filter isActive ts)"
      unfolding closeOtherTabs_def snd_conv e1 e2 by (rule inactive_ids[OF d])
  qed
  have inv: "store_inv ts \<longrightarrow> store_inv (snd (closeOtherTabs (ui, ts)))"
    by (simp add: closeOtherTabs_def run_closeTab_inv)
  have d1: "dialog_open (fst (closeAllTabs (ui, ts))) = dialog_open ui"
    by (simp add: closeAllTabs_def)
  have d2: "dialog_open (fst (closeOtherTabs (ui, ts))) = dialog_open ui"
    by (simp add: closeOtherTabs_def)
  show ?thesis
    using r1 r2 all u others inv d1 d2
    by (intro conjI) (simp_all only: closeAll_calls_def closeOthers_calls_def)
qed

text \<open>
  In the example store B has unsaved changes, and closing it without force asks for
  confirmation; both menu entries remove it with no dialog.
\<close>

theorem C10_bulk_close_forces_witness:
  "hasUnsavedChanges (abc_store ! 1)
   \<and> closeTab ''B'' False abc_store = (NeedsConfirmation ''B'', abc_store)
   \<and> closeAll_calls abc_store = [(''A'', True), (''B'', True), (''C'', True)]
   \<and> closeOthers_calls abc_store = [(''B'', True), (''C'', True)]
   \<and> fst (run_closeTab (closeAll_calls abc_store) abc_store) = [Closed, Closed, Closed]
   \<and> fst (run_closeTab (closeOthers_calls abc_store) abc_store) = [Closed, Closed]
   \<and> closeAllTabs (ui0, abc_store) = (ui0, [])
   \<and> map tab_id (snd (closeOtherTabs (ui0, abc_store))) = [''A'']
   \<and> store_inv (snd (closeOtherTabs (ui0, abc_store)))
   \<and> \<not> dialog_open (fst (closeAllTabs (ui0, abc_store)))
   \<and> \<not> dialog_open (fst (closeOtherTabs (ui0, abc_store)))"
proof -
  note T = C10_bulk_close_forces[of abc_store ui0]
  have u: "hasUnsavedChanges (abc_store ! 1)" by (simp add: abc_store_def example_tab_def)
  have ask: "closeTab ''B'' False abc_store = (NeedsConfirmation ''B'', abc_store)"
    by (simp add: closeTab_def abc_store_def example_tab_def)
  have d: "distinct (map tab_id abc_store)" by (simp add: abc_store_def example_tab_def)
  have c1: "map (\<lambda>t. (tab_id t, True)) abc_store = [(''A'', True), (''B'', True), (''C'', True)]"
    and c2: "map (\<lambda>t. (tab_id t, True)) (filter (\<lambda>t. \<not> isActive t) abc_store)
              = [(''B'', True), (''C'', True)]"
    and a: "map tab_id (filter isActive abc_store) = [''A'']"
    and l: "replicate (length abc_store) Closed = [Closed, Closed, Closed]"
    and l2: "replicate (length (filter (\<lambda>t. \<not> isActive t) abc_store)) Closed = [Closed, Closed]"
    by (simp_all add: abc_store_def example_tab_def)
  have o: "\<not> dialog_open ui0" by (simp add: dialog_open_def ui0_def)
  from T c1 have t1: "closeAll_calls abc_store = [(''A'', True), (''B'', True), (''C'', True)]"
    by metis
  from T c2 have t2: "closeOthers_calls abc_store = [(''B'', True), (''C'', True)]" by metis
  from T l have t3: "fst (run_closeTab (closeAll_calls abc_store) abc_store) = [Closed, Closed, Closed]"
    by metis
  from T l2 have t4: "fst (run_closeTab (closeOthers_calls abc_store) abc_store) = [Closed, Closed]"
    by metis
  from T have t5: "closeAllTabs (ui0, abc_store) = (ui0, [])" by blast
  from T d a have t6: "map tab_id (snd (closeOtherTabs (ui0, abc_store))) = [''A'']" by metis
  from T abc_store_inv have t7: "store_inv (snd (closeOtherTabs (ui0, abc_store)))" by blast
  from T o have t8: "\<not> dialog_open (fst (closeAllTabs (ui0, abc_store)))"
    and t9: "\<not> dialog_open (fst (closeOtherTabs (ui0, abc_store)))" by metis+
  show ?thesis using u ask t1 t2 t3 t4 t5 t6 t7 t8 t9 by (intro conjI) assumption+
qed

section \<open>The render surface\<close>

lemma map_switchToTab:
  "(\<And>t b. f (t\<lparr>isActive := b\<rparr>) = f t) \<Longrightarrow> map f (switchToTab tid ts) = map f ts"
  by (simp add: switchToTab_def map_activate split: option.splits)

lemma unmounted_same_keys:
  "map view_key after = map view_key before \<Longrightarrow> unmounted before after = []"
  by (simp add: unmounted_def)

lemma view_key_render: "map view_key (render_content unsynced ts) = map tab_id ts"
  by (simp add: render_content_def comp_def)

lemma nth_updateTabStreamingStatus:
  "k < length ts \<Longrightarrow>
   updateTabStreamingStatus unsynced tid isStreaming sid ts ! k =
     (if tab_id (ts ! k) = tid
      then (ts ! k)\<lparr>state := (if isStreaming then Streaming else Idle),
                    session := (case sid of None \<Rightarrow> session (ts ! k) | Some x \<Rightarrow> Some x),
                    hasUnsavedChanges := (isStreaming \<or> unsynced (ts ! k))\<rparr>
      else ts ! k)"
  by (simp add: updateTabStreamingStatus_def)

lemma map_isActive_update:
  "map isActive (updateTabStreamingStatus unsynced tid isStreaming sid ts) = map isActive ts"
  by (simp add: updateTabStreamingStatus_def comp_def)

lemma map_tab_id_update:
  "map tab_id (updateTabStreamingStatus unsynced tid isStreaming sid ts) = map tab_id ts"
  by (simp add: updateTabStreamingStatus_def comp_def)

text \<open>
  Claim C6.  The content area renders one \<^verbatim>\<open>TabSessionWrapper\<close> for every tab, keyed by
  the tab's identifier, active or not; the view of a tab is hidden exactly when the tab is
  not active.  \<^verbatim>\<open>switchToTab\<close> leaves the keys of the rendered views as they are, so no
  view is unmounted.  The \<^verbatim>\<open>onStreamingChange\<close> of the view of a tab is
  \<^verbatim>\<open>updateTabStreamingStatus\<close> on that tab; called for a tab that is not active, whose
  view is hidden, it sets the tab's \<^verbatim>\<open>state\<close> and \<^verbatim>\<open>hasUnsavedChanges\<close>, leaves every
  \<^verbatim>\<open>isActive\<close> as it is (the tab stays in the background), and unmounts nothing.
\<close>

theorem C6_persistent_views:
  "map view_key (render_content unsynced ts) = map tab_id ts
   \<and> map wrapper_tabId (render_content unsynced ts) = map tab_id ts
   \<and> map view_hidden (render_content unsynced ts) = map (\<lambda>t. \<not> isActive t) ts
   \<and> map view_key (render_content unsynced (switchToTab tid ts))
       = map view_key (render_content unsynced ts)
   \<and> unmounted (render_content unsynced ts) (render_content unsynced (switchToTab tid ts)) = []
   \<and> (k < length ts \<longrightarrow>
         wrapper_onStreamingChange (render_content unsynced ts ! k) isStreaming sid ts
           = updateTabStreamingStatus unsynced (tab_id (ts ! k)) isStreaming sid ts)
   \<and> (k < length ts \<and> \<not> isActive (ts ! k) \<longrightarrow>
         view_hidden (render_content unsynced ts ! k)
       \<and> state (wrapper_onStreamingChange (render_content unsynced ts ! k) isStreaming sid ts ! k)
           = (if isStreaming then Streaming else Idle)
       \<and> hasUnsavedChanges
            (wrapper_onStreamingChange (render_content unsynced ts ! k) isStreaming sid ts ! k)
           = (isStreaming \<or> unsynced (ts ! k))
       \<and> \<not> isActive (wrapper_onStreamingChange (render_content unsynced ts ! k) isStreaming sid ts ! k)
       \<and> map isActive (wrapper_onStreamingChange (render_content unsynced ts ! k) isStreaming sid ts)
           = map isActive ts
       \<and> unmounted (render_content unsynced ts)
            (render_content unsynced
               (wrapper_onStreamingChange (render_content unsynced ts ! k) isStreaming sid ts)) = [])"
proof -
  have keys: "map view_key (render_content unsynced ts) = map tab_id ts"
    by (rule view_key_render)
  have wid: "map wrapper_tabId (render_content unsynced ts) = map tab_id ts"
    by (simp add: render_content_def comp_def)
  have hid: "map view_hidden (render_content unsynced ts) = map (\<lambda>t. \<not> isActive t) ts"
    by (simp add: render_content_def comp_def)
  have sw: "map view_key (render_content unsynced (switchToTab tid ts))
       = map view_key (render_content unsynced ts)"
    by (simp add: view_key_render map_switchToTab)
  have un: "unmounted (render_content unsynced ts) (render_content unsynced (switchToTab tid ts)) = []"
    using sw by (rule unmounted_same_keys)
  have cb: "k < length ts \<longrightarrow>
         wrapper_onStreamingChange (render_content unsynced ts ! k) isStreaming sid ts
           = updateTabStreamingStatus unsynced (tab_id (ts ! k)) isStreaming sid ts"
    by (simp add: render_content_def)
  have bg: "k < length ts \<and> \<not> isActive (ts ! k) \<longrightarrow>
         view_hidden (render_content unsynced ts ! k)
       \<and> state (wrapper_onStreamingChange (render_content unsynced ts ! k) isStreaming sid ts ! k)
           = (if isStreaming then Streaming else Idle)
       \<and> hasUnsavedChanges
            (wrapper_onStreamingChange (render_content unsynced ts ! k) isStreaming sid ts ! k)
           = (isStreaming \<or> unsynced (ts ! k))
       \<and> \<not> isActive (wrapper_onStreamingChange (render_content unsynced ts ! k) isStreaming sid ts ! k)
       \<and> map isActive (wrapper_onStreamingChange (render_content unsynced ts ! k) isStreaming sid ts)
           = map isActive ts
       \<and> unmounted (render_content unsynced ts)
            (render_content unsynced
               (wrapper_onStreamingChange (render_content unsynced ts ! k) isStreaming sid ts)) = []"
  proof
    assume a: "k < length ts \<and> \<not> isActive (ts ! k)"
    then have k: "k < length ts" and na: "\<not> isActive (ts ! k)" by simp_all
    define ts' where "ts' = updateTabStreamingStatus unsynced (tab_id (ts ! k)) isStreaming sid ts"
    have w: "wrapper_onStreamingChange (render_content unsynced ts ! k) isStreaming sid ts = ts'"
      using k by (simp add: render_content_def ts'_def)
    have h: "view_hidden (render_content unsynced ts ! k)" using k na by (simp add: render_content_def)
    have n: "ts' ! k = (ts ! k)\<lparr>state := (if isStreaming then Streaming else Idle),
                    session := (case sid of None \<Rightarrow> session (ts ! k) | Some x \<Rightarrow> Some x),
                    hasUnsavedChanges := (isStreaming \<or> unsynced (ts ! k))\<rparr>"
      using k by (simp add: ts'_def nth_updateTabStreamingStatus)
    have m: "map isActive ts' = map isActive ts" by (simp add: ts'_def map_isActive_update)
    have "map view_key (render_content unsynced ts') = map view_key (render_content unsynced ts)"
      by (simp add: view_key_render ts'_def map_tab_id_update)
    then have u: "unmounted (render_content unsynced ts) (render_content unsynced ts') = []"
      by (rule unmounted_same_keys)
    show "view_hidden (render_content unsynced ts ! k)
       \<and> state (wrapper_onStreamingChange (render_content unsynced ts ! k) isStreaming sid ts ! k)
           = (if isStreaming then Streaming else Idle)
       \<and> hasUnsavedChanges
            (wrapper_onStreamingChange (render_content unsynced ts ! k) isStreaming sid ts ! k)
           = (isStreaming \<or> unsynced (ts ! k))
       \<and> \<not> isActive (wrapper_onStreamingChange (render_content unsynced ts ! k) isStreaming sid ts ! k)
       \<and> map isActive (wrapper_onStreamingChange (render_content unsynced ts ! k) isStreaming sid ts)
           = map isActive ts
       \<and> unmounted (render_content unsynced ts)
            (render_content unsynced
               (wrapper_onStreamingChange (render_content unsynced ts ! k) isStreaming sid ts)) = []"
      unfolding w using h n m u na by simp
  qed
  show ?thesis using keys wid hid sw un cb bg by (intro conjI) assumption+
qed

text \<open>
  The background tab B is streaming; switching to C hides A and shows C with all three
  views kept; the completion of the stream sets B to idle with nothing unsaved while A
  stays the active tab.
\<close>

theorem C6_persistent_views_witness:
  "map view_key (render_content (\<lambda>t. False) streaming_abc) = [''A'', ''B'', ''C'']
   \<and> map view_hidden (render_content (\<lambda>t. False) streaming_abc) = [False, True, True]
   \<and> map view_hidden (render_content (\<lambda>t. False) (switchToTab ''C'' streaming_abc)) = [True, True, False]
   \<and> unmounted (render_content (\<lambda>t. False) streaming_abc)
        (render_content (\<lambda>t. False) (switchToTab ''C'' streaming_abc)) = []
   \<and> state (streaming_abc ! 1) = Streaming
   \<and> hasUnsavedChanges (streaming_abc ! 1)
   \<and> \<not> isActive (streaming_abc ! 1)
   \<and> state (wrapper_onStreamingChange (render_content (\<lambda>t. False) streaming_abc ! 1)
               False None streaming_abc ! 1) = Idle
   \<and> \<not> hasUnsavedChanges (wrapper_onStreamingChange (render_content (\<lambda>t. False) streaming_abc ! 1)
               False None streaming_abc ! 1)
   \<and> map isActive (wrapper_onStreamingChange (render_content (\<lambda>t. False) streaming_abc ! 1)
               False None streaming_abc) = [True, False, False]"
proof -
  note T = C6_persistent_views[of "\<lambda>t. False" streaming_abc "''C''" 1 False None,
      unfolded if_False simp_thms]
  have l: "1 < length streaming_abc" and na: "\<not> isActive (streaming_abc ! 1)"
    and st: "state (streaming_abc ! 1) = Streaming" and un: "hasUnsavedChanges (streaming_abc ! 1)"
    and ids: "map tab_id streaming_abc = [''A'', ''B'', ''C'']"
    and hid: "map (\<lambda>t. \<not> isActive t) streaming_abc = [False, True, True]"
    and act: "map isActive streaming_abc = [True, False, False]"
    by (simp_all add: streaming_abc_def updateTabStreamingStatus_def abc_store_def example_tab_def)
  have sw: "map view_hidden (render_content (\<lambda>t. False) (switchToTab ''C'' streaming_abc))
             = [True, True, False]"
    by (simp add: streaming_abc_def updateTabStreamingStatus_def abc_store_def example_tab_def
        switchToTab_def activate_def render_content_def upt_rec)
  from T ids have t1: "map view_key (render_content (\<lambda>t. False) streaming_abc) = [''A'', ''B'', ''C'']"
    by metis
  from T hid have t2: "map view_hidden (render_content (\<lambda>t. False) streaming_abc) = [False, True, True]"
    by metis
  from T have t3: "unmounted (render_content (\<lambda>t. False) streaming_abc)
        (render_content (\<lambda>t. False) (switchToTab ''C'' streaming_abc)) = []" by blast
  from T l na have t4: "state (wrapper_onStreamingChange (render_content (\<lambda>t. False) streaming_abc ! 1)
               False None streaming_abc ! 1) = Idle" by blast
  from T l na have t5: "\<not> hasUnsavedChanges (wrapper_onStreamingChange (render_content (\<lambda>t. False) streaming_abc ! 1)
               False None streaming_abc ! 1)" by blast
  from T l na act have t6: "map isActive (wrapper_onStreamingChange (render_content (\<lambda>t. False) streaming_abc ! 1)
               False None streaming_abc) = [True, False, False]" by metis
  show ?thesis using t1 t2 sw t3 st un na t4 t5 t6 by (intro conjI) assumption+
qed

section \<open>Detaching a tab into a window\<close>













section \<open>The guard against concurrent status checks\<close>

lemma guard_inv_checkClaudeStatus: "guard_inv s \<Longrightarrow> guard_inv (checkClaudeStatus c cl s)"
  by (auto simp: guard_inv_def checkClaudeStatus_def)

lemma guard_inv_removeItem: "guard_inv s \<Longrightarrow> guard_inv (removeItem s)"
  by (simp add: guard_inv_def removeItem_def)

lemma guard_inv_handleRefresh: "guard_inv s \<Longrightarrow> guard_inv (handleRefresh c cl s)"
  by (simp add: handleRefresh_def guard_inv_checkClaudeStatus guard_inv_removeItem)

lemma guard_inv_mount: "guard_inv s \<Longrightarrow> guard_inv (mount c cl now s)"
proof -
  assume inv: "guard_inv s"
  have "guard_inv (case loadCachedStatus now (storage s) of
          Some cachedStatus \<Rightarrow>
            s\<lparr>components := (components s) (c := (components s c)\<lparr>statusInfo := cachedStatus\<rparr>)\<rparr>
        | None \<Rightarrow> if \<not> isChecking s then checkClaudeStatus c cl s else s)"
    using inv guard_inv_checkClaudeStatus[OF inv, of c cl]
    by (auto simp: guard_inv_def split: option.splits)
  then show ?thesis unfolding mount_def by (rule guard_inv_checkClaudeStatus)
qed

lemma guard_inv_check_resolved: "guard_inv s \<Longrightarrow> guard_inv (check_resolved k r now s)"
  by (auto simp: guard_inv_def check_resolved_def)

lemma removeAt_short: "length xs \<le> 1 \<Longrightarrow> k < length xs \<Longrightarrow> removeAt k xs = []"
  by (cases xs) (auto simp: removeAt_def)

lemma guard_inv_check_rejected: "guard_inv s \<Longrightarrow> guard_inv (check_rejected k now writable s)"
  by (auto simp: guard_inv_def check_rejected_def removeAt_short)

lemma guard_inv_path_settled: "guard_inv s \<Longrightarrow> guard_inv (path_settled k p now writable s)"
  by (auto simp: guard_inv_def path_settled_def removeAt_short split: phase.splits)

lemma guard_inv_step: "guard_inv s \<Longrightarrow> guard_inv (step e s)"
  by (cases e)
     (simp_all add: guard_inv_checkClaudeStatus guard_inv_handleRefresh guard_inv_mount
        guard_inv_check_resolved guard_inv_check_rejected guard_inv_path_settled)

lemma guard_inv_run: "guard_inv s \<Longrightarrow> guard_inv (run es s)"
  by (induction es arbitrary: s) (simp_all add: guard_inv_step)

lemma guard_inv_idle: "guard_inv idle_sys"
  by (simp add: guard_inv_def idle_sys_def)

text \<open>
  Claim C8.  With the flag \<^verbatim>\<open>isChecking\<close> set, \<^verbatim>\<open>checkClaudeStatus\<close> returns at once and
  changes nothing.  With the flag clear, it sets the flag and puts one check in flight.
  From a state in which the flag is set exactly while a check is in flight, and at most
  one is (the state at first among them), every run of mounts, calls, refreshes and
  answers of the backend leads to such a state: never more than one check is in flight.
  A check in flight clears the flag and ends when the backend fails (the error path), and
  keeps the flag while it waits for the path and clears it when the path has settled (the
  success path).
\<close>

theorem C8_reentrancy_guard:
  "(isChecking s \<longrightarrow> checkClaudeStatus c cl s = s)
   \<and> (\<not> isChecking s \<longrightarrow>
         isChecking (checkClaudeStatus c cl s)
       \<and> inflight (checkClaudeStatus c cl s)
           = inflight s @ [\<lparr>caller = c, selectedCli = cl, phase = AwaitingCheck\<rparr>])
   \<and> (guard_inv s \<longrightarrow>
         length (inflight (run es s)) \<le> 1
       \<and> (isChecking (run es s) \<longleftrightarrow> inflight (run es s) \<noteq> []))
   \<and> length (inflight (run es idle_sys)) \<le> 1
   \<and> (isChecking (run es idle_sys) \<longleftrightarrow> inflight (run es idle_sys) \<noteq> [])
   \<and> (inflight s = [i] \<and> phase i = AwaitingCheck \<longrightarrow>
         \<not> isChecking (check_rejected 0 now writable s)
       \<and> inflight (check_rejected 0 now writable s) = [])
   \<and> (inflight s = [i] \<and> phase i = AwaitingCheck \<longrightarrow>
         inflight (check_resolved 0 r now s)
           = [i\<lparr>phase := AwaitingPath (new_status (selectedCli i) r now)\<rparr>]
       \<and> isChecking (check_resolved 0 r now s) = isChecking s
       \<and> \<not> isChecking (path_settled 0 p now' writable (check_resolved 0 r now s))
       \<and> inflight (path_settled 0 p now' writable (check_resolved 0 r now s)) = [])"
proof -
  have g: "isChecking s \<longrightarrow> checkClaudeStatus c cl s = s"
    by (simp add: checkClaudeStatus_def)
  have a: "\<not> isChecking s \<longrightarrow>
         isChecking (checkClaudeStatus c cl s)
       \<and> inflight (checkClaudeStatus c cl s)
           = inflight s @ [\<lparr>caller = c, selectedCli = cl, phase = AwaitingCheck\<rparr>]"
    by (simp add: checkClaudeStatus_def)
  have r: "guard_inv s \<longrightarrow>
         length (inflight (run es s)) \<le> 1
       \<and> (isChecking (run es s) \<longleftrightarrow> inflight (run es s) \<noteq> [])"
    using guard_inv_run[of s es] by (simp add: guard_inv_def)
  have r0: "length (inflight (run es idle_sys)) \<le> 1"
    and r1: "isChecking (run es idle_sys) \<longleftrightarrow> inflight (run es idle_sys) \<noteq> []"
    using guard_inv_run[OF guard_inv_idle, of es] by (simp_all add: guard_inv_def)
  have e: "inflight s = [i] \<and> phase i = AwaitingCheck \<longrightarrow>
         \<not> isChecking (check_rejected 0 now writable s)
       \<and> inflight (check_rejected 0 now writable s) = []"
    by (simp add: check_rejected_def removeAt_def)
  have k: "inflight s = [i] \<and> phase i = AwaitingCheck \<longrightarrow>
         inflight (check_resolved 0 r now s)
           = [i\<lparr>phase := AwaitingPath (new_status (selectedCli i) r now)\<rparr>]
       \<and> isChecking (check_resolved 0 r now s) = isChecking s
       \<and> \<not> isChecking (path_settled 0 p now' writable (check_resolved 0 r now s))
       \<and> inflight (path_settled 0 p now' writable (check_resolved 0 r now s)) = []"
    by (simp add: check_resolved_def path_settled_def removeAt_def)
  show ?thesis using g a r r0 r1 e k by (intro conjI) assumption+
qed


text \<open>
  After indicator 0 is mounted its check is in flight, and a call by indicator 1 changes
  nothing; the check releases the flag on either path; after the whole example run no
  check is in flight and the flag is clear.
\<close>

theorem C8_reentrancy_guard_witness:
  "isChecking (run [Mount 0 Claude 1000] idle_sys)
   \<and> inflight (run [Mount 0 Claude 1000] idle_sys)
       = [\<lparr>caller = 0, selectedCli = Claude, phase = AwaitingCheck\<rparr>]
   \<and> checkClaudeStatus 1 Codex (run [Mount 0 Claude 1000] idle_sys) = run [Mount 0 Claude 1000] idle_sys
   \<and> \<not> isChecking (check_rejected 0 4000 True (run [Mount 0 Claude 1000] idle_sys))
   \<and> inflight (check_rejected 0 4000 True (run [Mount 0 Claude 1000] idle_sys)) = []
   \<and> \<not> isChecking (path_settled 0 (Some ''/usr/bin/claude'') 3000 True
                       (check_resolved 0 claude_found 4000 (run [Mount 0 Claude 1000] idle_sys)))
   \<and> \<not> isChecking idle_sys
   \<and> isChecking (checkClaudeStatus 0 Claude idle_sys)
   \<and> length (inflight (run example_events idle_sys)) \<le> 1
   \<and> inflight (run example_events idle_sys) = []
   \<and> \<not> isChecking (run example_events idle_sys)"
proof -
  have c: "isChecking (run [Mount 0 Claude 1000] idle_sys)"
    and i: "inflight (run [Mount 0 Claude 1000] idle_sys)
       = [\<lparr>caller = 0, selectedCli = Claude, phase = AwaitingCheck\<rparr>]"
    and p: "phase \<lparr>caller = 0, selectedCli = Claude, phase = AwaitingCheck\<rparr> = AwaitingCheck"
    and n: "\<not> isChecking idle_sys"
    by (simp_all add: idle_sys_def mount_def loadCachedStatus_def checkClaudeStatus_def)
  have f: "inflight (run example_events idle_sys) = []" by code_simp
  note T = C8_reentrancy_guard[where s = "run [Mount 0 Claude 1000] idle_sys" and c = 1
      and cl = Codex and es = example_events
      and i = "\<lparr>caller = 0, selectedCli = Claude, phase = AwaitingCheck\<rparr>"
      and now = 4000 and writable = True and r = claude_found
      and p = "Some ''/usr/bin/claude''" and now' = 3000]
  note U = C8_reentrancy_guard[where s = idle_sys and c = 0 and cl = Claude]
  from T c have t1: "checkClaudeStatus 1 Codex (run [Mount 0 Claude 1000] idle_sys)
      = run [Mount 0 Claude 1000] idle_sys" by blast
  from T i p have t2: "\<not> isChecking (check_rejected 0 4000 True (run [Mount 0 Claude 1000] idle_sys))"
    and t3: "inflight (check_rejected 0 4000 True (run [Mount 0 Claude 1000] idle_sys)) = []"
    and t4: "\<not> isChecking (path_settled 0 (Some ''/usr/bin/claude'') 3000 True
                       (check_resolved 0 claude_found 4000 (run [Mount 0 Claude 1000] idle_sys)))"
    by blast+
  from U n have t5: "isChecking (checkClaudeStatus 0 Claude idle_sys)" by blast
  from T have t6: "length (inflight (run example_events idle_sys)) \<le> 1" by blast
  from T f have t7: "\<not> isChecking (run example_events idle_sys)" by blast
  show ?thesis using c i t1 t2 t3 t4 n t5 t6 f t7 by (intro conjI) assumption+
qed

section \<open>The cache of the status\<close>

lemma loadCachedStatus_Some_iff:
  "loadCachedStatus now cached = Some info \<longleftrightarrow>
     (\<exists>t. cached = Some (Parsed (Some info) (Some t)) \<and> now - t < CACHE_DURATION)"
  by (auto simp: loadCachedStatus_def Let_def split: option.splits stored.splits if_splits)

text \<open>
  Claim C9, as amended.  \<^verbatim>\<open>loadCachedStatus\<close> returns a status exactly when the cache
  entry exists, parses to a status with a timestamp, and its age, \<open>now\<close> minus the
  timestamp, is strictly below \<^verbatim>\<open>CACHE_DURATION\<close>, which is 86400000 milliseconds (24
  hours); it returns that status.  It returns \<^verbatim>\<open>null\<close> for no entry, for an entry that
  does not parse, for one without a status or without a timestamp, and for one whose age
  has reached the duration.  A status just saved is returned while it is young enough.
  \<^verbatim>\<open>handleRefresh\<close> removes the entry and then calls \<^verbatim>\<open>checkClaudeStatus\<close>: the cache is
  empty afterwards; with no check running, a fresh check is in flight, started on the
  empty cache; with a check running, the refresh does no more than remove the entry, and
  the checks in flight are those that were.
\<close>

theorem C9_status_cache:
  "(loadCachedStatus now cached = Some info \<longleftrightarrow>
      (\<exists>t. cached = Some (Parsed (Some info) (Some t)) \<and> now - t < CACHE_DURATION))
   \<and> CACHE_DURATION = 86400000
   \<and> loadCachedStatus now None = None
   \<and> loadCachedStatus now (Some Unparseable) = None
   \<and> loadCachedStatus now (Some (Parsed None ts)) = None
   \<and> loadCachedStatus now (Some (Parsed si None)) = None
   \<and> (CACHE_DURATION \<le> now - t \<longrightarrow> loadCachedStatus now (Some (Parsed si (Some t))) = None)
   \<and> (now - t < CACHE_DURATION \<longrightarrow>
         loadCachedStatus now (saveCachedStatus True t info cached) = Some info)
   \<and> handleRefresh c cl s = checkClaudeStatus c cl (removeItem s)
   \<and> storage (removeItem s) = None
   \<and> storage (handleRefresh c cl s) = None
   \<and> loadCachedStatus now (storage (handleRefresh c cl s)) = None
   \<and> (\<not> isChecking s \<longrightarrow>
         inflight (handleRefresh c cl s)
           = inflight s @ [\<lparr>caller = c, selectedCli = cl, phase = AwaitingCheck\<rparr>])
   \<and> (\<not> isChecking s \<longrightarrow>
         isChecking (handleRefresh c cl s)
       \<and> status (statusInfo (components (handleRefresh c cl s) c)) = Checking)
   \<and> (isChecking s \<longrightarrow>
         handleRefresh c cl s = removeItem s
       \<and> inflight (handleRefresh c cl s) = inflight s
       \<and> components (handleRefresh c cl s) = components s)"
proof -
  have iff: "loadCachedStatus now cached = Some info \<longleftrightarrow>
      (\<exists>t. cached = Some (Parsed (Some info) (Some t)) \<and> now - t < CACHE_DURATION)"
    by (rule loadCachedStatus_Some_iff)
  have dur: "CACHE_DURATION = 86400000" by (simp add: CACHE_DURATION_def)
  have n1: "loadCachedStatus now None = None"
    and n2: "loadCachedStatus now (Some Unparseable) = None"
    and n3: "loadCachedStatus now (Some (Parsed None ts)) = None"
    and n4: "loadCachedStatus now (Some (Parsed si None)) = None"
    by (simp_all add: loadCachedStatus_def Let_def split: option.splits)
  have old: "CACHE_DURATION \<le> now - t \<longrightarrow> loadCachedStatus now (Some (Parsed si (Some t))) = None"
    by (simp add: loadCachedStatus_def Let_def)
  have rt: "now - t < CACHE_DURATION \<longrightarrow>
         loadCachedStatus now (saveCachedStatus True t info cached) = Some info"
    by (simp add: loadCachedStatus_def saveCachedStatus_def Let_def)
  have h: "handleRefresh c cl s = checkClaudeStatus c cl (removeItem s)"
    by (simp add: handleRefresh_def)
  have rm: "storage (removeItem s) = None" by (simp add: removeItem_def)
  have st: "storage (handleRefresh c cl s) = None"
    by (simp add: handleRefresh_def removeItem_def checkClaudeStatus_def)
  have ld: "loadCachedStatus now (storage (handleRefresh c cl s)) = None"
    by (simp add: st loadCachedStatus_def)
  have fr: "\<not> isChecking s \<longrightarrow>
         inflight (handleRefresh c cl s)
           = inflight s @ [\<lparr>caller = c, selectedCli = cl, phase = AwaitingCheck\<rparr>]"
    by (simp add: handleRefresh_def removeItem_def checkClaudeStatus_def)
  have fr2: "\<not> isChecking s \<longrightarrow>
         isChecking (handleRefresh c cl s)
       \<and> status (statusInfo (components (handleRefresh c cl s) c)) = Checking"
    by (simp add: handleRefresh_def removeItem_def checkClaudeStatus_def)
  have busy: "isChecking s \<longrightarrow>
         handleRefresh c cl s = removeItem s
       \<and> inflight (handleRefresh c cl s) = inflight s
       \<and> components (handleRefresh c cl s) = components s"
    by (simp add: handleRefresh_def removeItem_def checkClaudeStatus_def)
  show ?thesis using iff dur n1 n2 n3 n4 old rt h rm st ld fr fr2 busy
    by (intro conjI) assumption+
qed

text \<open>
  The status cached at time 3000 in the example run is returned one millisecond before it
  is 24 hours old and not at 24 hours; a refresh empties the cache and starts a check.
\<close>

theorem C9_status_cache_witness:
  "storage cached_sys = Some (Parsed (Some (new_status Claude claude_found 2000)) (Some 3000))
   \<and> loadCachedStatus (3000 + 86399999) (storage cached_sys) = Some (new_status Claude claude_found 2000)
   \<and> loadCachedStatus (3000 + 86400000) (storage cached_sys) = None
   \<and> loadCachedStatus 5000 (Some Unparseable) = None
   \<and> \<not> isChecking cached_sys
   \<and> storage (handleRefresh 0 Claude cached_sys) = None
   \<and> loadCachedStatus 5000 (storage (handleRefresh 0 Claude cached_sys)) = None
   \<and> inflight (handleRefresh 0 Claude cached_sys)
       = [\<lparr>caller = 0, selectedCli = Claude, phase = AwaitingCheck\<rparr>]
   \<and> isChecking (handleRefresh 0 Claude cached_sys)
   \<and> isChecking (checkClaudeStatus 1 Codex cached_sys)
   \<and> handleRefresh 0 Claude (checkClaudeStatus 1 Codex cached_sys)
       = removeItem (checkClaudeStatus 1 Codex cached_sys)"
proof -
  have s: "storage cached_sys = Some (Parsed (Some (new_status Claude claude_found 2000)) (Some 3000))"
    and n: "\<not> isChecking cached_sys" and e: "inflight cached_sys = []"
    by code_simp+
  note T = C9_status_cache[where now = "3000 + 86399999" and cached = "storage cached_sys"
      and info = "new_status Claude claude_found 2000"]
  note V = C9_status_cache[where now = "3000 + 86400000" and t = 3000
      and si = "Some (new_status Claude claude_found 2000)"]
  note W = C9_status_cache[where now = 5000 and c = 0 and cl = Claude and s = cached_sys]
  have a1: "(3000 + 86399999 :: int) - 3000 < CACHE_DURATION"
    and a2: "CACHE_DURATION \<le> (3000 + 86400000 :: int) - 3000"
    by (simp_all add: CACHE_DURATION_def)
  from T s a1 have t1: "loadCachedStatus (3000 + 86399999) (storage cached_sys)
      = Some (new_status Claude claude_found 2000)" by blast
  from V s a2 have t2: "loadCachedStatus (3000 + 86400000) (storage cached_sys) = None" by metis
  from W have t3: "loadCachedStatus 5000 (Some Unparseable) = None"
    and t4: "storage (handleRefresh 0 Claude cached_sys) = None"
    and t5: "loadCachedStatus 5000 (storage (handleRefresh 0 Claude cached_sys)) = None" by blast+
  from W n have "inflight (handleRefresh 0 Claude cached_sys)
       = inflight cached_sys @ [\<lparr>caller = 0, selectedCli = Claude, phase = AwaitingCheck\<rparr>]"
    by blast
  with e have t6: "inflight (handleRefresh 0 Claude cached_sys)
       = [\<lparr>caller = 0, selectedCli = Claude, phase = AwaitingCheck\<rparr>]" by simp
  from W n have t7: "isChecking (handleRefresh 0 Claude cached_sys)" by blast
  have b: "isChecking (checkClaudeStatus 1 Codex cached_sys)"
    using n by (simp add: checkClaudeStatus_def)
  note B = C9_status_cache[where c = 0 and cl = Claude and s = "checkClaudeStatus 1 Codex cached_sys"]
  from B b have t8: "handleRefresh 0 Claude (checkClaudeStatus 1 Codex cached_sys)
       = removeItem (checkClaudeStatus 1 Codex cached_sys)" by blast
  show ?thesis using s t1 t2 t3 n t4 t5 t6 t7 b t8 by (intro conjI) assumption+
qed

text \<open>
  The claim as it was stated, that a manual refresh performs a fresh check, fails while a
  check is in flight.  The status of Claude is cached and indicator 1 has a check of Codex
  in flight; the refresh of indicator 0 removes the cache entry and starts no check: the
  only check in flight is still the one of Codex, and the status of indicator 0 is as
  before.
\<close>

theorem C9_refresh_during_check_counterexample:
  "storage cached_sys \<noteq> None
   \<and> isChecking (step (Invoke 1 Codex) cached_sys)
   \<and> handleRefresh 0 Claude (step (Invoke 1 Codex) cached_sys)
       = removeItem (step (Invoke 1 Codex) cached_sys)
   \<and> storage (handleRefresh 0 Claude (step (Invoke 1 Codex) cached_sys)) = None
   \<and> inflight (handleRefresh 0 Claude (step (Invoke 1 Codex) cached_sys))
       = [\<lparr>caller = 1, selectedCli = Codex, phase = AwaitingCheck\<rparr>]
   \<and> statusInfo (components (handleRefresh 0 Claude (step (Invoke 1 Codex) cached_sys)) 0)
       = new_status Claude claude_found 2000"
proof -
  have s: "storage cached_sys \<noteq> None" and n: "\<not> isChecking cached_sys"
    and e: "inflight cached_sys = []"
    and c: "statusInfo (components cached_sys 0) = new_status Claude claude_found 2000"
    by code_simp+
  have b: "isChecking (step (Invoke 1 Codex) cached_sys)"
    using n by (simp add: checkClaudeStatus_def)
  have r: "handleRefresh 0 Claude (step (Invoke 1 Codex) cached_sys)
       = removeItem (step (Invoke 1 Codex) cached_sys)"
    using b by (simp add: handleRefresh_def removeItem_def checkClaudeStatus_def)
  have st: "storage (handleRefresh 0 Claude (step (Invoke 1 Codex) cached_sys)) = None"
    unfolding r by (simp add: removeItem_def)
  have fl: "inflight (handleRefresh 0 Claude (step (Invoke 1 Codex) cached_sys))
       = [\<lparr>caller = 1, selectedCli = Codex, phase = AwaitingCheck\<rparr>]"
    unfolding r using n e by (simp add: removeItem_def checkClaudeStatus_def)
  have co: "statusInfo (components (handleRefresh 0 Claude (step (Invoke 1 Codex) cached_sys)) 0)
       = new_status Claude claude_found 2000"
    unfolding r using n c by (simp add: removeItem_def checkClaudeStatus_def)
  show ?thesis using s b r st fl co by (intro conjI) assumption+
qed

end
